theory Spec2Isabelle
  imports Complex_Main "HOL-Library.AList" "HOL-Library.Sublist"
begin

section \<open>Python values and exceptions\<close>

text \<open>
  A payload value is JSON: the repository writes strings only
  (\<^verbatim>\<open>{"source": source_id, "text": chunks[i]}\<close>), and a key can be stored with
  the value null. Both are hashable, so \<^verbatim>\<open>sources.add(source)\<close> never raises.
\<close>

datatype pyval = PNone | PStr string

text \<open>Python's truth value: \<^verbatim>\<open>None\<close> and the empty string are false.\<close>

fun truthy :: "pyval \<Rightarrow> bool" where
  "truthy PNone = False"
| "truthy (PStr s) = (s \<noteq> [])"

text \<open>
  The exceptions the code can meet. \<open>LibraryError c\<close> is an exception of class \<open>c\<close>
  raised inside an external library (qdrant\_client, openai, llama\_index); the
  repository defines no exception class of its own and has no \<^verbatim>\<open>try\<close>.
\<close>

datatype py_error = IndexError | KeyError string | LibraryError string

type_synonym vector = "real list"
type_synonym payload = "string \<rightharpoonup> pyval"

section \<open>The vector store service behind \<^verbatim>\<open>QdrantClient\<close>\<close>

datatype distance = COSINE | EUCLID | DOT | MANHATTAN

record PointStruct =
  point_id :: string
  point_vector :: vector
  point_payload :: payload

record ScoredPoint =
  hit_id :: string
  score :: real
  payload :: "payload option"

text \<open>A collection: its configured vector size and metric, and its records by id.\<close>

record collection_info =
  vec_size :: nat
  metric :: distance
  points :: "(string \<times> vector \<times> payload option) list"

datatype call =
  CollectionExists string | CreateCollection string | Upsert string | Search string

text \<open>
  The service is state the program does not own: \<open>collections\<close> by name;
  \<open>similarity\<close>, how close the service finds two vectors under a metric (it works on
  floats, which the code never touches, so it is taken as given); \<open>faults\<close>, for
  each coming round trip whether it fails and with which exception class; \<open>calls\<close>,
  the round trips made so far.
\<close>

record qdrant =
  collections :: "string \<rightharpoonup> collection_info"
  similarity :: "distance \<Rightarrow> vector \<Rightarrow> vector \<Rightarrow> real"
  faults :: "string option list"
  calls :: "call list"

definition request :: "call \<Rightarrow> qdrant \<Rightarrow> string option \<times> qdrant" where
  "request c q =
     (case faults q of
        [] \<Rightarrow> (None, q\<lparr>calls := calls q @ [c]\<rparr>)
      | f # fs \<Rightarrow> (f, q\<lparr>faults := fs, calls := calls q @ [c]\<rparr>))"

definition collection_exists :: "string \<Rightarrow> qdrant \<Rightarrow> (py_error + bool) \<times> qdrant" where
  "collection_exists name q =
     (case request (CollectionExists name) q of
        (Some e, q') \<Rightarrow> (Inl (LibraryError e), q')
      | (None, q') \<Rightarrow> (Inr (collections q' name \<noteq> None), q'))"

definition create_collection ::
  "string \<Rightarrow> nat \<Rightarrow> distance \<Rightarrow> qdrant \<Rightarrow> (py_error + unit) \<times> qdrant" where
  "create_collection name sz d q =
     (case request (CreateCollection name) q of
        (Some e, q') \<Rightarrow> (Inl (LibraryError e), q')
      | (None, q') \<Rightarrow>
          (case collections q' name of
             Some c \<Rightarrow> (Inl (LibraryError ''UnexpectedResponse''), q')
           | None \<Rightarrow>
               (Inr (), q'\<lparr>collections := (collections q')
                  (name \<mapsto> \<lparr>vec_size = sz, metric = d, points = []\<rparr>)\<rparr>)))"

text \<open>
  A point id that is a string must spell a UUID: five groups of 8, 4, 4, 4 and 12
  hexadecimal digits, separated by hyphens, as \<^verbatim>\<open>str(uuid.uuid5(...))\<close> writes it.
  (The other spellings of a UUID that the service reads are left out.)
\<close>

fun fields :: "string \<Rightarrow> string list" where
  "fields [] = [[]]"
| "fields (c # cs) =
     (if c = CHR ''-'' then [] # fields cs
      else (case fields cs of [] \<Rightarrow> [[c]] | g # gs \<Rightarrow> (c # g) # gs))"

definition is_hex :: "char \<Rightarrow> bool" where
  "is_hex c = (c \<in> set ''0123456789abcdefABCDEF'')"

definition is_uuid :: "string \<Rightarrow> bool" where
  "is_uuid s = (map length (fields s) = [8, 4, 4, 4, 12] \<and> list_all is_hex (concat (fields s)))"

text \<open>
  The service takes a point when its id is a UUID and its vector has the length the
  collection is configured for.
\<close>

definition accepts :: "collection_info \<Rightarrow> PointStruct \<Rightarrow> bool" where
  "accepts c p = (is_uuid (point_id p) \<and> length (point_vector p) = vec_size c)"

text \<open>Insert-or-overwrite by id: a record with the point's id is replaced in place.\<close>

definition write_point ::
  "PointStruct \<Rightarrow> (string \<times> vector \<times> payload option) list
     \<Rightarrow> (string \<times> vector \<times> payload option) list" where
  "write_point p al = AList.update (point_id p) (point_vector p, Some (point_payload p)) al"

text \<open>
  The service refuses the whole request, and writes nothing, when the collection is
  absent or a point is not acceptable; the client reports the refusal as its
  UnexpectedResponse.
\<close>

definition client_upsert ::
  "string \<Rightarrow> PointStruct list \<Rightarrow> qdrant \<Rightarrow> (py_error + unit) \<times> qdrant" where
  "client_upsert name ps q =
     (case request (Upsert name) q of
        (Some e, q') \<Rightarrow> (Inl (LibraryError e), q')
      | (None, q') \<Rightarrow>
          (case collections q' name of
             None \<Rightarrow> (Inl (LibraryError ''UnexpectedResponse''), q')
           | Some c \<Rightarrow>
               (if list_all (accepts c) ps then
                  (Inr (), q'\<lparr>collections := (collections q')
                     (name \<mapsto> c\<lparr>points := fold write_point ps (points c)\<rparr>)\<rparr>)
                else (Inl (LibraryError ''UnexpectedResponse''), q'))))"

text \<open>
  The records of a collection, nearest first: ordered by decreasing similarity to the
  query, every record once, each with its payload (\<^verbatim>\<open>with_payload=True\<close>).
\<close>

definition ranked ::
  "(vector \<Rightarrow> vector \<Rightarrow> real) \<Rightarrow> vector \<Rightarrow> (string \<times> vector \<times> payload option) list
     \<Rightarrow> ScoredPoint list" where
  "ranked sim qv pts =
     map (\<lambda>(k, v, p). \<lparr>hit_id = k, score = sim qv v, payload = p\<rparr>)
       (sort_key (\<lambda>(k, v, p). - sim qv v) pts)"

text \<open>\<^verbatim>\<open>limit\<close> is a count: the service answers with the first \<open>limit\<close> hits.\<close>

definition client_search ::
  "string \<Rightarrow> vector \<Rightarrow> nat \<Rightarrow> qdrant \<Rightarrow> (py_error + ScoredPoint list) \<times> qdrant" where
  "client_search name qv limit q =
     (case request (Search name) q of
        (Some e, q') \<Rightarrow> (Inl (LibraryError e), q')
      | (None, q') \<Rightarrow>
          (case collections q' name of
             None \<Rightarrow> (Inl (LibraryError ''UnexpectedResponse''), q')
           | Some c \<Rightarrow>
               (Inr (take limit (ranked (similarity q' (metric c)) qv (points c))), q')))"

section \<open>\<^verbatim>\<open>vector_db.py\<close>: class \<^verbatim>\<open>QdrantStorage\<close>\<close>

text \<open>
  The object keeps the client and the collection name; the client is the service
  above, threaded through every method.
\<close>

record QdrantStorage =
  collection :: string

definition QdrantStorage_init ::
  "string \<Rightarrow> nat \<Rightarrow> qdrant \<Rightarrow> (py_error + QdrantStorage) \<times> qdrant" where
  "QdrantStorage_init coll dim_arg q =
     (case collection_exists coll q of
        (Inl e, q1) \<Rightarrow> (Inl e, q1)
      | (Inr True, q1) \<Rightarrow> (Inr \<lparr>collection = coll\<rparr>, q1)
      | (Inr False, q1) \<Rightarrow>
          (case create_collection coll dim_arg COSINE q1 of
             (Inl e, q2) \<Rightarrow> (Inl e, q2)
           | (Inr u, q2) \<Rightarrow> (Inr \<lparr>collection = coll\<rparr>, q2)))"

text \<open>\<^verbatim>\<open>xs[i]\<close> for \<open>i \<ge> 0\<close>: IndexError out of range.\<close>

definition py_index :: "'a list \<Rightarrow> nat \<Rightarrow> py_error + 'a" where
  "py_index xs i = (if i < length xs then Inr (xs ! i) else Inl IndexError)"

text \<open>
  The comprehension
  \<^verbatim>\<open>[PointStruct(id=ids[i], vector=vectors[i], payload=payloads[i]) for i in range(len(ids))]\<close>:
  the points are built index by index, and the first failing subscript ends it.
\<close>

fun build_points ::
  "string list \<Rightarrow> vector list \<Rightarrow> payload list \<Rightarrow> nat list \<Rightarrow> py_error + PointStruct list" where
  "build_points ids vectors payloads [] = Inr []"
| "build_points ids vectors payloads (i # is) =
     (case py_index ids i of Inl e \<Rightarrow> Inl e | Inr k \<Rightarrow>
     (case py_index vectors i of Inl e \<Rightarrow> Inl e | Inr v \<Rightarrow>
     (case py_index payloads i of Inl e \<Rightarrow> Inl e | Inr p \<Rightarrow>
     (case build_points ids vectors payloads is of Inl e \<Rightarrow> Inl e | Inr rest \<Rightarrow>
        Inr (\<lparr>point_id = k, point_vector = v, point_payload = p\<rparr> # rest)))))"

definition upsert ::
  "QdrantStorage \<Rightarrow> string list \<Rightarrow> vector list \<Rightarrow> payload list \<Rightarrow> qdrant
     \<Rightarrow> (py_error + unit) \<times> qdrant" where
  "upsert self ids vectors payloads q =
     (case build_points ids vectors payloads [0..<length ids] of
        Inl e \<Rightarrow> (Inl e, q)
      | Inr ps \<Rightarrow> client_upsert (collection self) ps q)"

text \<open>
  A Python set, as the list of its members without repetition; \<^verbatim>\<open>s.add(x)\<close>
  changes nothing when \<open>x\<close> is a member.
\<close>

definition set_add :: "'a \<Rightarrow> 'a list \<Rightarrow> 'a list" where
  "set_add x s = (if x \<in> set s then s else s @ [x])"

text \<open>\<^verbatim>\<open>payload.get(key, '')\<close>.\<close>

definition dict_get :: "payload \<Rightarrow> string \<Rightarrow> pyval" where
  "dict_get d k = (case d k of None \<Rightarrow> PStr [] | Some v \<Rightarrow> v)"

text \<open>
  \<^verbatim>\<open>getattr(r, 'payload', None) or {}\<close>: the empty dict for a hit without payload
  (and for one whose payload is the empty dict, which is false as a condition).
\<close>

definition hit_payload :: "ScoredPoint \<Rightarrow> payload" where
  "hit_payload r = (case payload r of None \<Rightarrow> Map.empty | Some d \<Rightarrow> d)"

text \<open>The body of \<^verbatim>\<open>for r in results\<close>, on the pair (contexts, sources).\<close>

definition search_body :: "ScoredPoint \<Rightarrow> pyval list \<times> pyval list \<Rightarrow> pyval list \<times> pyval list" where
  "search_body r acc =
     (let pl = hit_payload r;
          text = dict_get pl ''text'';
          source = dict_get pl ''source''
      in if truthy text then (fst acc @ [text], set_add source (snd acc)) else acc)"

record found =
  contexts :: "pyval list"
  sources :: "pyval list"

text \<open>
  \<^verbatim>\<open>list(sources)\<close> enumerates the set in the order of its hash-table slots, which
  the language does not fix; \<open>slot\<close> stands for that order, and every order of the
  members is the one of some \<open>slot\<close>.
\<close>

definition search ::
  "QdrantStorage \<Rightarrow> (pyval \<Rightarrow> nat) \<Rightarrow> vector \<Rightarrow> nat \<Rightarrow> qdrant \<Rightarrow> (py_error + found) \<times> qdrant" where
  "search self slot query_vector top_k q =
     (case client_search (collection self) query_vector top_k q of
        (Inl e, q') \<Rightarrow> (Inl e, q')
      | (Inr results, q') \<Rightarrow>
          (let acc = fold search_body results ([], [])
           in (Inr \<lparr>contexts = fst acc, sources = sort_key slot (snd acc)\<rparr>, q')))"

text \<open>What the loop reads from a hit, and the hits it keeps.\<close>

definition hit_text :: "ScoredPoint \<Rightarrow> pyval" where
  "hit_text r = dict_get (hit_payload r) ''text''"

definition hit_source :: "ScoredPoint \<Rightarrow> pyval" where
  "hit_source r = dict_get (hit_payload r) ''source''"

definition kept :: "ScoredPoint \<Rightarrow> bool" where
  "kept r = truthy (hit_text r)"

text \<open>The next round trip to the service succeeds.\<close>

definition answers :: "qdrant \<Rightarrow> bool" where
  "answers q = (case faults q of [] \<Rightarrow> True | f # fs \<Rightarrow> f = None)"

section \<open>\<^verbatim>\<open>data_loader.py\<close>\<close>

record document =
  doc_text :: "string option"

text \<open>
  The libraries the loader calls: \<open>reader\<close> is \<^verbatim>\<open>PDFReader().load_data\<close>,
  \<open>split_text\<close> is \<^verbatim>\<open>splitter.split_text\<close> of the sentence splitter configured with
  chunk size 1000 and overlap 200, \<open>embed\<close> is the embeddings request with the
  embeddings taken out of the response, \<open>uuid5\<close> is
  \<^verbatim>\<open>str(uuid.uuid5(uuid.NAMESPACE_URL, name))\<close>.
\<close>

record env =
  reader :: "string \<Rightarrow> py_error + document list"
  split_text :: "string \<Rightarrow> string list"
  embed :: "string list \<Rightarrow> py_error + vector list"
  uuid5 :: "string \<Rightarrow> string"

text \<open>\<^verbatim>\<open>getattr(d, 'text', None)\<close> as a condition: the text is there and not empty.\<close>

definition has_text :: "document \<Rightarrow> string option" where
  "has_text d = (case doc_text d of None \<Rightarrow> None | Some t \<Rightarrow> if t \<noteq> [] then Some t else None)"

definition load_and_chunk_pdf :: "env \<Rightarrow> string \<Rightarrow> py_error + string list" where
  "load_and_chunk_pdf E path =
     (case reader E path of
        Inl e \<Rightarrow> Inl e
      | Inr docs \<Rightarrow>
          (let texts = List.map_filter has_text docs
           in Inr (fold (\<lambda>t chunks. chunks @ split_text E t) texts [])))"

definition embed_texts :: "env \<Rightarrow> string list \<Rightarrow> py_error + vector list" where
  "embed_texts E texts = embed E texts"

section \<open>\<^verbatim>\<open>main.py\<close>: the ingest function\<close>

text \<open>
  Modelled from the spec: \<^verbatim>\<open>custom_types\<close> is not among the sources; the result
  types have the fields that \<^verbatim>\<open>main.py\<close> constructs and reads.
\<close>

record RAGChunkAndSrc =
  chunks :: "string list"
  source_id :: string

record RAGUpsertResult =
  ingested :: int

text \<open>\<^verbatim>\<open>str(i)\<close> for \<open>i \<ge> 0\<close>: decimal digits.\<close>

fun str_nat :: "nat \<Rightarrow> string" where
  "str_nat n =
     (if n < 10 then [''0123456789'' ! n]
      else str_nat (n div 10) @ [''0123456789'' ! (n mod 10)])"

declare str_nat.simps [simp del]

text \<open>The step \<^verbatim>\<open>_load\<close>, on the event's data.\<close>

definition ingest_load :: "env \<Rightarrow> (string \<rightharpoonup> string) \<Rightarrow> py_error + RAGChunkAndSrc" where
  "ingest_load E data =
     (case data ''pdf_path'' of
        None \<Rightarrow> Inl (KeyError ''pdf_path'')
      | Some pdf_path \<Rightarrow>
          (let sid = (case data ''source_id'' of None \<Rightarrow> pdf_path | Some s \<Rightarrow> s)
           in case load_and_chunk_pdf E pdf_path of
                Inl e \<Rightarrow> Inl e
              | Inr cs \<Rightarrow> Inr \<lparr>chunks = cs, source_id = sid\<rparr>))"

definition chunk_ids :: "env \<Rightarrow> string \<Rightarrow> nat \<Rightarrow> string list" where
  "chunk_ids E sid n = map (\<lambda>i. uuid5 E (sid @ '': '' @ str_nat i)) [0..<n]"

definition chunk_payloads :: "string \<Rightarrow> string list \<Rightarrow> payload list" where
  "chunk_payloads sid cs =
     map (\<lambda>i. [''source'' \<mapsto> PStr sid, ''text'' \<mapsto> PStr (cs ! i)]) [0..<length cs]"

text \<open>
  The step \<^verbatim>\<open>_upsert\<close>; \<^verbatim>\<open>QdrantStorage()\<close> takes the defaults, collection
  \<^verbatim>\<open>'docs'\<close> and dimension 3072.
\<close>

definition ingest_upsert ::
  "env \<Rightarrow> RAGChunkAndSrc \<Rightarrow> qdrant \<Rightarrow> (py_error + RAGUpsertResult) \<times> qdrant" where
  "ingest_upsert E cas q =
     (case embed_texts E (chunks cas) of
        Inl e \<Rightarrow> (Inl e, q)
      | Inr vecs \<Rightarrow>
          (let ids = chunk_ids E (source_id cas) (length (chunks cas));
               payloads = chunk_payloads (source_id cas) (chunks cas)
           in case QdrantStorage_init ''docs'' 3072 q of
                (Inl e, q1) \<Rightarrow> (Inl e, q1)
              | (Inr store, q1) \<Rightarrow>
                  (case upsert store ids vecs payloads q1 of
                     (Inl e, q2) \<Rightarrow> (Inl e, q2)
                   | (Inr u, q2) \<Rightarrow> (Inr \<lparr>ingested = int (length (chunks cas))\<rparr>, q2))))"

text \<open>
  The orchestrator runs the two steps in order and hands the first step's output to the
  second.
\<close>

definition rag_ingest_pdf ::
  "env \<Rightarrow> (string \<rightharpoonup> string) \<Rightarrow> qdrant \<Rightarrow> (py_error + RAGUpsertResult) \<times> qdrant" where
  "rag_ingest_pdf E data q =
     (case ingest_load E data of
        Inl e \<Rightarrow> (Inl e, q)
      | Inr cas \<Rightarrow> ingest_upsert E cas q)"

section \<open>What the store holds\<close>

text \<open>The records of a collection; none when the collection is absent.\<close>

definition records :: "qdrant \<Rightarrow> string \<Rightarrow> (string \<times> vector \<times> payload option) list" where
  "records q name = (case collections q name of None \<Rightarrow> [] | Some c \<Rightarrow> points c)"

text \<open>The number of records of a collection whose payload names the source.\<close>

definition source_count :: "qdrant \<Rightarrow> string \<Rightarrow> string \<Rightarrow> nat" where
  "source_count q name s =
     length (filter (\<lambda>(k, v, p). case p of None \<Rightarrow> False | Some d \<Rightarrow> d ''source'' = Some (PStr s))
       (records q name))"

text \<open>A stored record without its vector: the id and the payload.\<close>

definition id_payload ::
  "(string \<times> vector \<times> payload option) list \<Rightarrow> (string \<times> payload option) list" where
  "id_payload al = map (\<lambda>(k, v, p). (k, p)) al"

text \<open>The points that \<^verbatim>\<open>_upsert\<close> hands to the store, given the embeddings.\<close>

definition chunk_points :: "env \<Rightarrow> RAGChunkAndSrc \<Rightarrow> vector list \<Rightarrow> PointStruct list" where
  "chunk_points E cas vecs =
     map (\<lambda>i. \<lparr>point_id = chunk_ids E (source_id cas) (length (chunks cas)) ! i,
               point_vector = vecs ! i,
               point_payload = chunk_payloads (source_id cas) (chunks cas) ! i\<rparr>)
       [0..<length (chunks cas)]"

section \<open>Sample services and inputs\<close>

text \<open>A service that holds the given collections, ranks by the inner product, answers every
  request, and has seen none.\<close>

definition service :: "(string \<rightharpoonup> collection_info) \<Rightarrow> qdrant" where
  "service cs =
     \<lparr>collections = cs, similarity = (\<lambda>d a b. sum_list (map2 (*) a b)), faults = [], calls = []\<rparr>"

definition docs_collection ::
  "nat \<Rightarrow> (string \<times> vector \<times> payload option) list \<Rightarrow> string \<rightharpoonup> collection_info" where
  "docs_collection n pts = [''docs'' \<mapsto> \<lparr>vec_size = n, metric = COSINE, points = pts\<rparr>]"

text \<open>
  Four records, stored in no particular order. For the query \<open>[1, 0]\<close> the nearest is
  \<open>id1\<close>, whose text is empty, then \<open>id2\<close>, which has a text and no source, then
  \<open>id3\<close>, then \<open>id4\<close>, which has no payload.
\<close>

definition sample_points :: "(string \<times> vector \<times> payload option) list" where
  "sample_points =
     [(''id3'', [1, 0], Some [''source'' \<mapsto> PStr ''a.pdf'', ''text'' \<mapsto> PStr ''thirty days'']),
      (''id1'', [3, 0], Some [''source'' \<mapsto> PStr ''a.pdf'', ''text'' \<mapsto> PStr []]),
      (''id4'', [0, 1], None),
      (''id2'', [2, 0], Some [''text'' \<mapsto> PStr ''refunds''])]"

definition sample_service :: qdrant where
  "sample_service = service (docs_collection 2 sample_points)"

definition by_length :: "pyval \<Rightarrow> nat" where
  "by_length v = (case v of PNone \<Rightarrow> 0 | PStr s \<Rightarrow> length s)"

text \<open>
  Sample libraries. \<^verbatim>\<open>doc.pdf\<close> has four pages, one of them without text;
  \<^verbatim>\<open>scan.pdf\<close> has a page without text, a page with the empty text and a page of
  blanks. The splitter makes one chunk of a page and none of a page of blanks. The
  embedder answers with one vector for each text. The id function gives the ids that
  uuid5 gives in the URL namespace for the three names used here, and one fixed id for
  any other name.
\<close>

definition sample_env :: env where
  "sample_env =
     \<lparr>reader = (\<lambda>path.
         if path = ''doc.pdf'' then
           Inr [\<lparr>doc_text = Some ''one''\<rparr>, \<lparr>doc_text = None\<rparr>,
                \<lparr>doc_text = Some ''two''\<rparr>, \<lparr>doc_text = Some ''three''\<rparr>]
         else if path = ''scan.pdf'' then
           Inr [\<lparr>doc_text = None\<rparr>, \<lparr>doc_text = Some []\<rparr>, \<lparr>doc_text = Some ''  ''\<rparr>]
         else Inl (LibraryError ''FileNotFoundError'')),
      split_text = (\<lambda>t. if list_all (\<lambda>c. c = CHR '' '') t then [] else [t]),
      embed = (\<lambda>texts. Inr (map (\<lambda>t. replicate 3072 1) texts)),
      uuid5 = (\<lambda>name.
         if name = ''doc.pdf: 0'' then ''bb2d8670-e8dc-5abe-b552-5090bd97b9a6''
         else if name = ''doc.pdf: 1'' then ''76fa3489-96c1-5db6-bf03-5ed9dafe90b7''
         else if name = ''doc.pdf: 2'' then ''63e469a4-8dc8-5fa2-82a8-874d44b52a66''
         else ''00000000-0000-5000-8000-000000000000'')\<rparr>"

text \<open>
  The records that the ingestion of \<^verbatim>\<open>doc.pdf\<close> writes when every embedding is
  \<open>v\<close>, and a second embedder, which answers with other vectors.
\<close>

definition sample_records :: "vector \<Rightarrow> (string \<times> vector \<times> payload option) list" where
  "sample_records v =
     [(''bb2d8670-e8dc-5abe-b552-5090bd97b9a6'', v,
       Some [''source'' \<mapsto> PStr ''doc.pdf'', ''text'' \<mapsto> PStr ''one'']),
      (''76fa3489-96c1-5db6-bf03-5ed9dafe90b7'', v,
       Some [''source'' \<mapsto> PStr ''doc.pdf'', ''text'' \<mapsto> PStr ''two'']),
      (''63e469a4-8dc8-5fa2-82a8-874d44b52a66'', v,
       Some [''source'' \<mapsto> PStr ''doc.pdf'', ''text'' \<mapsto> PStr ''three''])]"

definition other_embed :: "string list \<Rightarrow> py_error + vector list" where
  "other_embed texts = Inr (map (\<lambda>t. replicate 3072 2) texts)"

section \<open>\<^verbatim>\<open>upsert\<close>: sequences of different lengths\<close>

lemma build_points_ok:
  "\<forall>i\<in>set is. i < length ids \<and> i < length vectors \<and> i < length payloads \<Longrightarrow>
   build_points ids vectors payloads is =
     Inr (map (\<lambda>i. \<lparr>point_id = ids ! i, point_vector = vectors ! i, point_payload = payloads ! i\<rparr>) is)"
  by (induction "is") (simp_all add: py_index_def)

lemma build_points_fail:
  "\<exists>i\<in>set is. \<not> (i < length ids \<and> i < length vectors \<and> i < length payloads) \<Longrightarrow>
   build_points ids vectors payloads is = Inl IndexError"
  by (induction "is") (auto simp add: py_index_def split: sum.splits)

lemma upsert_short:
  assumes "length vectors < length ids \<or> length payloads < length ids"
  shows "upsert self ids vectors payloads q = (Inl IndexError, q)"
proof -
  from assms have "\<exists>i\<in>set [0..<length ids].
      \<not> (i < length ids \<and> i < length vectors \<and> i < length payloads)"
  proof
    assume "length vectors < length ids"
    then show ?thesis by (intro bexI [of _ "length vectors"]) simp_all
  next
    assume "length payloads < length ids"
    then show ?thesis by (intro bexI [of _ "length payloads"]) simp_all
  qed
  then show ?thesis
    by (simp only: upsert_def build_points_fail sum.case)
qed

lemma upsert_long:
  assumes "length ids \<le> length vectors" and "length ids \<le> length payloads"
  shows "upsert self ids vectors payloads q =
      client_upsert (collection self)
        (map (\<lambda>i. \<lparr>point_id = ids ! i, point_vector = vectors ! i, point_payload = payloads ! i\<rparr>)
           [0..<length ids]) q"
proof -
  from assms have
    "\<forall>i\<in>set [0..<length ids]. i < length ids \<and> i < length vectors \<and> i < length payloads"
    by simp
  then show ?thesis
    by (simp only: upsert_def build_points_ok sum.case)
qed

lemma client_upsert_calls: "calls (snd (client_upsert name ps q)) = calls q @ [Upsert name]"
  by (cases "faults q"; cases "collections q name")
     (auto simp add: client_upsert_def request_def split: option.splits)

lemma client_upsert_accepted:
  assumes "answers q" and "collections q name = Some c" and "list_all (accepts c) ps"
  shows "client_upsert name ps q =
      (Inr (), q\<lparr>faults := tl (faults q), calls := calls q @ [Upsert name],
         collections := (collections q)
           (name \<mapsto> c\<lparr>points := fold write_point ps (points c)\<rparr>)\<rparr>)"
  using assms by (cases "faults q") (simp_all add: client_upsert_def request_def answers_def)

lemma upsert_accepted:
  assumes "length ids \<le> length vectors" and "length ids \<le> length payloads"
    and "answers q" and "collections q (collection self) = Some c"
    and "list_all (accepts c)
      (map (\<lambda>i. \<lparr>point_id = ids ! i, point_vector = vectors ! i, point_payload = payloads ! i\<rparr>)
         [0..<length ids])"
  shows "upsert self ids vectors payloads q =
      (Inr (), q\<lparr>faults := tl (faults q), calls := calls q @ [Upsert (collection self)],
         collections := (collections q)
           (collection self \<mapsto> c\<lparr>points := fold write_point
              (map (\<lambda>i. \<lparr>point_id = ids ! i, point_vector = vectors ! i,
                         point_payload = payloads ! i\<rparr>) [0..<length ids])
              (points c)\<rparr>)\<rparr>)"
  by (simp only: upsert_long [OF assms(1,2)] client_upsert_accepted [OF assms(3,4,5)])

lemma sample_is_uuid: "is_uuid ''a240288e-ccf5-5f4a-b96a-ef0dd2a63d44''"
  by (simp add: is_uuid_def is_hex_def)

text \<open>
  Claim C2, as the spec states it: whenever the three sequences do not all have the same
  length, \<^verbatim>\<open>upsert\<close> fails before any request. It does not hold: with one id, two
  vectors and one payload no subscript is out of range, the request is sent, and the
  record is written with the first vector; the second vector is never looked at.
\<close>

theorem upsert_surplus_vectors_counterexample:
  "length [[1, 0], [0, 1 :: real]] \<noteq> length [''a240288e-ccf5-5f4a-b96a-ef0dd2a63d44''] \<and>
   fst (upsert \<lparr>collection = ''docs''\<rparr> [''a240288e-ccf5-5f4a-b96a-ef0dd2a63d44'']
          [[1, 0], [0, 1]] [[''text'' \<mapsto> PStr ''t'']] (service (docs_collection 2 []))) = Inr () \<and>
   calls (snd (upsert \<lparr>collection = ''docs''\<rparr> [''a240288e-ccf5-5f4a-b96a-ef0dd2a63d44'']
          [[1, 0], [0, 1]] [[''text'' \<mapsto> PStr ''t'']] (service (docs_collection 2 []))))
     = [Upsert ''docs''] \<and>
   records (snd (upsert \<lparr>collection = ''docs''\<rparr> [''a240288e-ccf5-5f4a-b96a-ef0dd2a63d44'']
          [[1, 0], [0, 1]] [[''text'' \<mapsto> PStr ''t'']] (service (docs_collection 2 [])))) ''docs''
     = [(''a240288e-ccf5-5f4a-b96a-ef0dd2a63d44'', [1, 0], Some [''text'' \<mapsto> PStr ''t''])]"
  by (simp add: upsert_def py_index_def client_upsert_def request_def service_def
      docs_collection_def write_point_def records_def accepts_def sample_is_uuid)

text \<open>
  Claim C2, amended: when \<^verbatim>\<open>vectors\<close> or \<^verbatim>\<open>payloads\<close> is shorter than
  \<^verbatim>\<open>ids\<close>, \<^verbatim>\<open>upsert\<close> raises IndexError while it builds the points, and the
  service is left as it was (no request is logged, no record is written). When both are
  at least as long as \<^verbatim>\<open>ids\<close>, no length error is raised, also when the lengths
  differ: \<^verbatim>\<open>upsert\<close> makes exactly one upsert request, which carries the first
  \<open>length ids\<close> triples (what lies beyond is ignored), and the outcome of
  \<^verbatim>\<open>upsert\<close> is the outcome of that request; in particular, when the service
  answers, holds the collection and accepts these points, \<^verbatim>\<open>upsert\<close> succeeds and
  these points are written.
\<close>

theorem upsert_lengths:
  "(length vectors < length ids \<or> length payloads < length ids \<longrightarrow>
      upsert self ids vectors payloads q = (Inl IndexError, q)) \<and>
   (length ids \<le> length vectors \<and> length ids \<le> length payloads \<longrightarrow>
      upsert self ids vectors payloads q =
        client_upsert (collection self)
          (map (\<lambda>i. \<lparr>point_id = ids ! i, point_vector = vectors ! i, point_payload = payloads ! i\<rparr>)
             [0..<length ids]) q) \<and>
   (length ids \<le> length vectors \<and> length ids \<le> length payloads \<longrightarrow>
      calls (snd (upsert self ids vectors payloads q)) = calls q @ [Upsert (collection self)]) \<and>
   (length ids \<le> length vectors \<and> length ids \<le> length payloads \<and>
    answers q \<and> collections q (collection self) = Some c \<and>
    list_all (accepts c)
      (map (\<lambda>i. \<lparr>point_id = ids ! i, point_vector = vectors ! i, point_payload = payloads ! i\<rparr>)
         [0..<length ids]) \<longrightarrow>
      fst (upsert self ids vectors payloads q) = Inr () \<and>
      records (snd (upsert self ids vectors payloads q)) (collection self) =
        fold write_point
          (map (\<lambda>i. \<lparr>point_id = ids ! i, point_vector = vectors ! i, point_payload = payloads ! i\<rparr>)
             [0..<length ids]) (points c))"
proof (intro conjI impI)
  assume "length vectors < length ids \<or> length payloads < length ids"
  then show "upsert self ids vectors payloads q = (Inl IndexError, q)"
    by (rule upsert_short)
next
  assume "length ids \<le> length vectors \<and> length ids \<le> length payloads"
  then show "upsert self ids vectors payloads q =
        client_upsert (collection self)
          (map (\<lambda>i. \<lparr>point_id = ids ! i, point_vector = vectors ! i, point_payload = payloads ! i\<rparr>)
             [0..<length ids]) q"
    by (simp add: upsert_long)
next
  assume "length ids \<le> length vectors \<and> length ids \<le> length payloads"
  then show "calls (snd (upsert self ids vectors payloads q)) = calls q @ [Upsert (collection self)]"
    by (simp add: upsert_long client_upsert_calls)
next
  assume "length ids \<le> length vectors \<and> length ids \<le> length payloads \<and>
    answers q \<and> collections q (collection self) = Some c \<and>
    list_all (accepts c)
      (map (\<lambda>i. \<lparr>point_id = ids ! i, point_vector = vectors ! i, point_payload = payloads ! i\<rparr>)
         [0..<length ids])"
  then show "fst (upsert self ids vectors payloads q) = Inr ()"
    by (simp add: upsert_accepted)
next
  assume "length ids \<le> length vectors \<and> length ids \<le> length payloads \<and>
    answers q \<and> collections q (collection self) = Some c \<and>
    list_all (accepts c)
      (map (\<lambda>i. \<lparr>point_id = ids ! i, point_vector = vectors ! i, point_payload = payloads ! i\<rparr>)
         [0..<length ids])"
  then show "records (snd (upsert self ids vectors payloads q)) (collection self) =
        fold write_point
          (map (\<lambda>i. \<lparr>point_id = ids ! i, point_vector = vectors ! i, point_payload = payloads ! i\<rparr>)
             [0..<length ids]) (points c)"
    by (simp add: upsert_accepted records_def)
qed

text \<open>Three ids against two vectors, and one id against two vectors.\<close>

theorem upsert_lengths_witness:
  "length [[1, 0], [0, 1 :: real]] < length [''a'', ''b'', ''c''] \<and>
   upsert \<lparr>collection = ''docs''\<rparr> [''a'', ''b'', ''c''] [[1, 0], [0, 1]]
      [Map.empty, Map.empty, Map.empty] (service (docs_collection 2 []))
     = (Inl IndexError, service (docs_collection 2 [])) \<and>
   length [''a240288e-ccf5-5f4a-b96a-ef0dd2a63d44''] \<le> length [[1, 0], [0, 1 :: real]] \<and>
   answers (service (docs_collection 2 [])) \<and>
   fst (upsert \<lparr>collection = ''docs''\<rparr> [''a240288e-ccf5-5f4a-b96a-ef0dd2a63d44'']
          [[1, 0], [0, 1]] [[''text'' \<mapsto> PStr ''t'']] (service (docs_collection 2 []))) = Inr () \<and>
   calls (snd (upsert \<lparr>collection = ''docs''\<rparr> [''a240288e-ccf5-5f4a-b96a-ef0dd2a63d44'']
          [[1, 0], [0, 1]] [[''text'' \<mapsto> PStr ''t'']] (service (docs_collection 2 []))))
     = [Upsert ''docs''] \<and>
   records (snd (upsert \<lparr>collection = ''docs''\<rparr> [''a240288e-ccf5-5f4a-b96a-ef0dd2a63d44'']
          [[1, 0], [0, 1]] [[''text'' \<mapsto> PStr ''t'']] (service (docs_collection 2 [])))) ''docs''
     = [(''a240288e-ccf5-5f4a-b96a-ef0dd2a63d44'', [1, 0], Some [''text'' \<mapsto> PStr ''t''])]"
proof -
  let ?S = "service (docs_collection 2 [])"
  let ?C = "\<lparr>vec_size = 2, metric = COSINE, points = []\<rparr>"
  let ?id = "''a240288e-ccf5-5f4a-b96a-ef0dd2a63d44''"
  let ?u = "upsert \<lparr>collection = ''docs''\<rparr> [?id] [[1, 0], [0, 1]] [[''text'' \<mapsto> PStr ''t'']] ?S"
  let ?ps = "map (\<lambda>i. \<lparr>point_id = [?id] ! i, point_vector = [[1, 0], [0, 1 :: real]] ! i,
      point_payload = [[''text'' \<mapsto> PStr ''t'']] ! i\<rparr>) [0..<length [?id]]"
  have short: "length [[1, 0], [0, 1 :: real]] < length [''a'', ''b'', ''c'']"
    by simp
  with upsert_lengths [of "[[1, 0], [0, 1]]" "[''a'', ''b'', ''c'']"
      "[Map.empty, Map.empty, Map.empty]" "\<lparr>collection = ''docs''\<rparr>" ?S]
  have p1: "upsert \<lparr>collection = ''docs''\<rparr> [''a'', ''b'', ''c''] [[1, 0], [0, 1]]
      [Map.empty, Map.empty, Map.empty] ?S = (Inl IndexError, ?S)"
    by blast
  have a: "answers ?S"
    by (simp add: answers_def service_def)
  have h: "length [?id] \<le> length [[1, 0], [0, 1 :: real]] \<and>
      length [?id] \<le> length [[''text'' \<mapsto> PStr ''t'']] \<and> answers ?S \<and>
      collections ?S (collection \<lparr>collection = ''docs''\<rparr>) = Some ?C \<and>
      list_all (accepts ?C) ?ps"
    by (simp add: a accepts_def sample_is_uuid) (simp add: service_def docs_collection_def)
  from upsert_lengths [of "[[1, 0], [0, 1]]" "[?id]" "[[''text'' \<mapsto> PStr ''t'']]"
      "\<lparr>collection = ''docs''\<rparr>" ?S ?C] h
  have "calls (snd ?u) = calls ?S @ [Upsert (collection \<lparr>collection = ''docs''\<rparr>)]"
    and "fst ?u = Inr ()"
    and "records (snd ?u) (collection \<lparr>collection = ''docs''\<rparr>) = fold write_point ?ps (points ?C)"
    by blast+
  then have p2: "fst ?u = Inr ()" "calls (snd ?u) = [Upsert ''docs'']"
    "records (snd ?u) ''docs'' = [(?id, [1, 0], Some [''text'' \<mapsto> PStr ''t''])]"
    by (simp_all add: service_def write_point_def)
  from short p1 a p2 show ?thesis
    by simp
qed

section \<open>\<^verbatim>\<open>search\<close>: what the loop computes\<close>

lemma set_fold_set_add: "set (fold set_add xs ss) = set ss \<union> set xs"
  by (induction xs arbitrary: ss) (auto simp add: set_add_def)

lemma distinct_fold_set_add: "distinct ss \<Longrightarrow> distinct (fold set_add xs ss)"
  by (induction xs arbitrary: ss) (simp_all add: set_add_def)

lemma length_fold_set_add: "length (fold set_add xs ss) \<le> length ss + length xs"
proof (induction xs arbitrary: ss)
  case Nil
  show ?case by simp
next
  case (Cons x xs)
  have "length (fold set_add xs (set_add x ss)) \<le> length (set_add x ss) + length xs"
    by (rule Cons.IH)
  also have "length (set_add x ss) \<le> Suc (length ss)"
    by (simp add: set_add_def)
  finally show ?case by simp
qed

lemma fold_search_body:
  "fold search_body hits (cs, ss) =
     (cs @ map hit_text (filter kept hits), fold set_add (map hit_source (filter kept hits)) ss)"
  by (induction hits arbitrary: cs ss)
    (simp_all add: search_body_def kept_def hit_text_def hit_source_def Let_def)

section \<open>Round trips to the service\<close>

lemma request_answers:
  "answers q \<Longrightarrow> request c q = (None, q\<lparr>faults := tl (faults q), calls := calls q @ [c]\<rparr>)"
  by (cases "faults q") (simp_all add: request_def answers_def)

lemma request_fault:
  "faults q = Some e # fs \<Longrightarrow> request c q = (Some e, q\<lparr>faults := fs, calls := calls q @ [c]\<rparr>)"
  by (simp add: request_def)

lemma request_cases:
  "request c q = (f, q') \<Longrightarrow>
     q' = q\<lparr>faults := tl (faults q), calls := calls q @ [c]\<rparr> \<and> (f = None \<longleftrightarrow> answers q)"
  by (cases "faults q") (auto simp add: request_def answers_def)

lemma client_search_answers:
  "answers q \<Longrightarrow> collections q name = Some c \<Longrightarrow>
   client_search name qv k q =
     (Inr (take k (ranked (similarity q (metric c)) qv (points c))),
      q\<lparr>faults := tl (faults q), calls := calls q @ [Search name]\<rparr>)"
  by (simp add: client_search_def request_answers)

lemma client_search_Inr:
  "client_search name qv k q = (Inr hits, q') \<Longrightarrow>
   answers q \<and> (\<exists>c. collections q name = Some c \<and>
     hits = take k (ranked (similarity q (metric c)) qv (points c)))"
  by (cases "request (Search name) q")
     (auto simp add: client_search_def dest!: request_cases split: option.splits)

lemma search_Inr:
  "fst (search self slot qv k q) = Inr found \<Longrightarrow>
   \<exists>hits q'. client_search (collection self) qv k q = (Inr hits, q') \<and>
     contexts found = map hit_text (filter kept hits) \<and>
     sources found = sort_key slot (fold set_add (map hit_source (filter kept hits)) [])"
  by (cases "client_search (collection self) qv k q")
     (auto simp add: search_def fold_search_body Let_def split: sum.splits)

lemma search_of_hits:
  "client_search (collection self) qv k q = (Inr hits, q') \<Longrightarrow>
   search self slot qv k q =
     (Inr \<lparr>contexts = map hit_text (filter kept hits),
           sources = sort_key slot (fold set_add (map hit_source (filter kept hits)) [])\<rparr>, q')"
  by (simp add: search_def fold_search_body Let_def)


section \<open>The sample service, evaluated\<close>

lemma sample_ranked:
  "ranked (similarity sample_service COSINE) [1, 0] sample_points =
     [\<lparr>hit_id = ''id1'', score = 3, payload = Some [''source'' \<mapsto> PStr ''a.pdf'', ''text'' \<mapsto> PStr []]\<rparr>,
      \<lparr>hit_id = ''id2'', score = 2, payload = Some [''text'' \<mapsto> PStr ''refunds'']\<rparr>,
      \<lparr>hit_id = ''id3'', score = 1, payload = Some [''source'' \<mapsto> PStr ''a.pdf'', ''text'' \<mapsto> PStr ''thirty days'']\<rparr>,
      \<lparr>hit_id = ''id4'', score = 0, payload = None\<rparr>]"
  by (simp add: ranked_def sample_service_def service_def sample_points_def)

lemma sample_search_take:
  "client_search ''docs'' [1, 0] k sample_service =
     (Inr (take k (ranked (similarity sample_service COSINE) [1, 0] sample_points)),
      sample_service\<lparr>calls := [Search ''docs'']\<rparr>)"
proof -
  have a: "answers sample_service"
    by (simp add: answers_def sample_service_def service_def)
  have c: "collections sample_service ''docs'' =
      Some \<lparr>vec_size = 2, metric = COSINE, points = sample_points\<rparr>"
    by (simp add: sample_service_def service_def docs_collection_def)
  have f: "sample_service\<lparr>faults := tl (faults sample_service),
      calls := calls sample_service @ [Search ''docs'']\<rparr> = sample_service\<lparr>calls := [Search ''docs'']\<rparr>"
    by (simp add: sample_service_def service_def)
  show ?thesis
    by (simp add: client_search_answers [OF a c] f)
qed

lemma sample_search:
  "client_search ''docs'' [1, 0] 2 sample_service =
     (Inr [\<lparr>hit_id = ''id1'', score = 3, payload = Some [''source'' \<mapsto> PStr ''a.pdf'', ''text'' \<mapsto> PStr []]\<rparr>,
           \<lparr>hit_id = ''id2'', score = 2, payload = Some [''text'' \<mapsto> PStr ''refunds'']\<rparr>],
      sample_service\<lparr>calls := [Search ''docs'']\<rparr>)"
  by (simp add: sample_search_take sample_ranked)

lemma sample_found:
  "fst (search \<lparr>collection = ''docs''\<rparr> by_length [1, 0] 2 sample_service) =
     Inr \<lparr>contexts = [PStr ''refunds''], sources = [PStr []]\<rparr>"
  by (simp add: search_def sample_search search_body_def Let_def
      hit_payload_def dict_get_def set_add_def)


section \<open>\<^verbatim>\<open>search\<close>: bound, order, sources\<close>

lemma truthy_not_empty: "truthy t \<Longrightarrow> t \<noteq> PStr [] \<and> t \<noteq> PNone"
  by (cases t) simp_all

lemma sorted_ranked: "sorted (map (\<lambda>r. - score r) (ranked sim qv pts))"
proof -
  have "map (\<lambda>r. - score r) (ranked sim qv pts) =
      map (\<lambda>(k, v, p). - sim qv v) (sort_key (\<lambda>(k, v, p). - sim qv v) pts)"
    by (simp add: ranked_def split_def)
  then show ?thesis
    by (simp only: sorted_sort_key)
qed

text \<open>
  Claim C5: \<^verbatim>\<open>search\<close> returns at most \<open>top_k\<close> contexts (and sources), and no
  context is empty or null. A hit whose text is missing or empty is left out, and the
  search does not fail for it: whenever the service answers and holds the collection,
  \<^verbatim>\<open>search\<close> returns a result, whatever the payloads are, and its contexts are the
  texts of all the other hits. The service is asked for \<open>top_k\<close> hits and sends no more.
\<close>

theorem search_at_most_top_k:
  "(answers q \<and> collections q (collection self) \<noteq> None \<longrightarrow>
      (\<exists>found. fst (search self slot qv top_k q) = Inr found)) \<and>
   (\<forall>found. fst (search self slot qv top_k q) = Inr found \<longrightarrow>
      length (contexts found) \<le> top_k \<and> length (sources found) \<le> top_k \<and>
      (\<forall>t\<in>set (contexts found). truthy t) \<and>
      PStr [] \<notin> set (contexts found) \<and> PNone \<notin> set (contexts found) \<and>
      (\<exists>hits q'. client_search (collection self) qv top_k q = (Inr hits, q') \<and>
         length hits \<le> top_k \<and>
         contexts found = map hit_text (filter (\<lambda>r. truthy (hit_text r)) hits)))"
proof (intro conjI allI impI)
  assume "answers q \<and> collections q (collection self) \<noteq> None"
  then obtain c where a: "answers q" and c: "collections q (collection self) = Some c"
    by auto
  show "\<exists>found. fst (search self slot qv top_k q) = Inr found"
    by (simp add: search_of_hits [OF client_search_answers [OF a c]])
next
  fix found
  assume "fst (search self slot qv top_k q) = Inr found"
  from search_Inr [OF this] obtain hits q' where
    cs: "client_search (collection self) qv top_k q = (Inr hits, q')" and
    ctx: "contexts found = map hit_text (filter kept hits)" and
    src: "sources found = sort_key slot (fold set_add (map hit_source (filter kept hits)) [])"
    by blast
  from client_search_Inr [OF cs] have len: "length hits \<le> top_k"
    by auto
  have lk: "length (filter kept hits) \<le> top_k"
    by (rule order_trans [OF length_filter_le len])
  show "length (contexts found) \<le> top_k"
    using lk by (simp add: ctx)
  have "length (sources found) \<le> length (filter kept hits)"
    using length_fold_set_add [of "map hit_source (filter kept hits)" "[]"] by (simp add: src)
  with lk show "length (sources found) \<le> top_k"
    by simp
  show all: "\<forall>t\<in>set (contexts found). truthy t"
    by (auto simp add: ctx kept_def)
  show "PStr [] \<notin> set (contexts found)"
    using all truthy_not_empty by blast
  show "PNone \<notin> set (contexts found)"
    using all truthy_not_empty by blast
  have "contexts found = map hit_text (filter (\<lambda>r. truthy (hit_text r)) hits)"
    by (simp add: ctx kept_def [abs_def])
  with cs len show "\<exists>hits q'. client_search (collection self) qv top_k q = (Inr hits, q') \<and>
         length hits \<le> top_k \<and>
         contexts found = map hit_text (filter (\<lambda>r. truthy (hit_text r)) hits)"
    by blast
qed

text \<open>Two hits asked for; the nearest has an empty text and is left out.\<close>

theorem search_at_most_top_k_witness:
  "answers sample_service \<and>
   collections sample_service (collection \<lparr>collection = ''docs''\<rparr>) \<noteq> None \<and>
   fst (search \<lparr>collection = ''docs''\<rparr> by_length [1, 0] 2 sample_service) =
     Inr \<lparr>contexts = [PStr ''refunds''], sources = [PStr []]\<rparr> \<and>
   length (contexts \<lparr>contexts = [PStr ''refunds''], sources = [PStr []]\<rparr>) \<le> 2 \<and>
   PStr [] \<notin> set (contexts \<lparr>contexts = [PStr ''refunds''], sources = [PStr []]\<rparr>)"
proof -
  have f: "fst (search \<lparr>collection = ''docs''\<rparr> by_length [1, 0] 2 sample_service) =
     Inr \<lparr>contexts = [PStr ''refunds''], sources = [PStr []]\<rparr>"
    by (rule sample_found)
  have a: "answers sample_service \<and>
      collections sample_service (collection \<lparr>collection = ''docs''\<rparr>) \<noteq> None"
    by (simp add: answers_def sample_service_def service_def docs_collection_def)
  from search_at_most_top_k [of sample_service "\<lparr>collection = ''docs''\<rparr>" by_length "[1, 0]" 2]
  have "length (contexts \<lparr>contexts = [PStr ''refunds''], sources = [PStr []]\<rparr>) \<le> 2 \<and>
      PStr [] \<notin> set (contexts \<lparr>contexts = [PStr ''refunds''], sources = [PStr []]\<rparr>)"
    using f by blast
  with a f show ?thesis
    by blast
qed

text \<open>
  Claim C7: the contexts are the texts of the kept hits in the order in which the service
  ranked the hits (nearest first), so a subsequence of the hits' texts; the sources are
  the sources of the kept hits, each once, in whatever order the set is enumerated.
\<close>

theorem search_order_and_dedup:
  assumes "fst (search self slot qv top_k q) = Inr found"
  shows "\<exists>hits q'. client_search (collection self) qv top_k q = (Inr hits, q') \<and>
      sorted (map (\<lambda>r. - score r) hits) \<and>
      contexts found = map hit_text (filter (\<lambda>r. truthy (hit_text r)) hits) \<and>
      subseq (contexts found) (map hit_text hits) \<and>
      distinct (sources found) \<and>
      set (sources found) = hit_source ` {r \<in> set hits. truthy (hit_text r)}"
proof -
  from search_Inr [OF assms] obtain hits q' where
    cs: "client_search (collection self) qv top_k q = (Inr hits, q')" and
    ctx: "contexts found = map hit_text (filter kept hits)" and
    src: "sources found = sort_key slot (fold set_add (map hit_source (filter kept hits)) [])"
    by blast
  from client_search_Inr [OF cs] obtain c :: collection_info where
    "hits = take top_k (ranked (similarity q (metric c)) qv (points c))"
    by auto
  then have "sorted (map (\<lambda>r. - score r) hits)"
    by (simp add: take_map [symmetric] sorted_ranked)
  moreover have "contexts found = map hit_text (filter (\<lambda>r. truthy (hit_text r)) hits)"
    by (simp add: ctx kept_def [abs_def])
  moreover have "subseq (contexts found) (map hit_text hits)"
    by (simp add: ctx subseq_map)
  moreover have "distinct (sources found)"
    by (simp add: src distinct_fold_set_add)
  moreover have "set (sources found) = hit_source ` {r \<in> set hits. truthy (hit_text r)}"
    by (auto simp add: src set_fold_set_add kept_def)
  ultimately show ?thesis
    using cs by blast
qed


text \<open>All four records asked for: two kept, in rank order, and two distinct sources.\<close>

theorem search_order_and_dedup_witness:
  "fst (search \<lparr>collection = ''docs''\<rparr> by_length [1, 0] 4 sample_service) =
     Inr \<lparr>contexts = [PStr ''refunds'', PStr ''thirty days''], sources = [PStr [], PStr ''a.pdf'']\<rparr> \<and>
   subseq (contexts \<lparr>contexts = [PStr ''refunds'', PStr ''thirty days''],
                     sources = [PStr [], PStr ''a.pdf'']\<rparr>)
     (map hit_text (ranked (similarity sample_service COSINE) [1, 0] sample_points)) \<and>
   distinct (sources \<lparr>contexts = [PStr ''refunds'', PStr ''thirty days''],
                       sources = [PStr [], PStr ''a.pdf'']\<rparr>)"
proof -
  have cs: "client_search ''docs'' [1, 0] 4 sample_service =
      (Inr (ranked (similarity sample_service COSINE) [1, 0] sample_points),
       sample_service\<lparr>calls := [Search ''docs'']\<rparr>)"
    by (simp add: sample_search_take sample_ranked)
  have f: "fst (search \<lparr>collection = ''docs''\<rparr> by_length [1, 0] 4 sample_service) =
     Inr \<lparr>contexts = [PStr ''refunds'', PStr ''thirty days''], sources = [PStr [], PStr ''a.pdf'']\<rparr>"
    by (simp add: search_def cs sample_ranked search_body_def Let_def
        hit_payload_def dict_get_def set_add_def by_length_def)
  from search_order_and_dedup [OF f] obtain hits q' where
    h: "client_search (collection \<lparr>collection = ''docs''\<rparr>) [1, 0] 4 sample_service = (Inr hits, q')" and
    s: "subseq (contexts \<lparr>contexts = [PStr ''refunds'', PStr ''thirty days''],
                     sources = [PStr [], PStr ''a.pdf'']\<rparr>) (map hit_text hits)" and
    d: "distinct (sources \<lparr>contexts = [PStr ''refunds'', PStr ''thirty days''],
                       sources = [PStr [], PStr ''a.pdf'']\<rparr>)"
    by blast
  from h have "hits = ranked (similarity sample_service COSINE) [1, 0] sample_points"
    by (simp add: cs)
  with s d f show ?thesis
    by (simp only: simp_thms)
qed

text \<open>
  Claim C9: \<^verbatim>\<open>search\<close> makes one request, for \<open>top_k\<close> hits. The contexts and
  the dropped hits among those returned add up to the number returned, which is
  \<open>top_k\<close> or the size of the collection if that is less; so as soon as one of the
  returned hits has no text there are fewer than \<open>top_k\<close> contexts, whatever the
  collection holds beyond the first \<open>top_k\<close>.
\<close>

theorem search_no_backfill:
  assumes "answers q" and "collections q (collection self) = Some c"
  shows "\<exists>found q'. search self slot qv top_k q = (Inr found, q') \<and>
      calls q' = calls q @ [Search (collection self)] \<and>
      length (contexts found) +
        length (filter (\<lambda>r. \<not> truthy (hit_text r))
          (take top_k (ranked (similarity q (metric c)) qv (points c))))
        = min top_k (length (ranked (similarity q (metric c)) qv (points c))) \<and>
      ((\<exists>r\<in>set (take top_k (ranked (similarity q (metric c)) qv (points c))).
          \<not> truthy (hit_text r)) \<longrightarrow> length (contexts found) < top_k)"
proof -
  let ?hits = "take top_k (ranked (similarity q (metric c)) qv (points c))"
  let ?found = "\<lparr>contexts = map hit_text (filter kept ?hits),
       sources = sort_key slot (fold set_add (map hit_source (filter kept ?hits)) [])\<rparr>"
  let ?q' = "q\<lparr>faults := tl (faults q), calls := calls q @ [Search (collection self)]\<rparr>"
  have s: "search self slot qv top_k q = (Inr ?found, ?q')"
    by (rule search_of_hits [OF client_search_answers [OF assms]])
  have split: "length (filter kept ?hits) + length (filter (\<lambda>r. \<not> kept r) ?hits) = length ?hits"
    by (rule sum_length_filter_compl)
  have n: "length (contexts ?found) + length (filter (\<lambda>r. \<not> truthy (hit_text r)) ?hits)
      = min top_k (length (ranked (similarity q (metric c)) qv (points c)))"
    using split by (simp add: kept_def [abs_def] min.commute)
  have lt: "(\<exists>r\<in>set ?hits. \<not> truthy (hit_text r)) \<longrightarrow> length (contexts ?found) < top_k"
  proof
    assume "\<exists>r\<in>set ?hits. \<not> truthy (hit_text r)"
    then have "filter (\<lambda>r. \<not> truthy (hit_text r)) ?hits \<noteq> []"
      by (simp add: filter_empty_conv)
    then have "0 < length (filter (\<lambda>r. \<not> truthy (hit_text r)) ?hits)"
      by simp
    with n show "length (contexts ?found) < top_k"
      by linarith
  qed
  have "calls ?q' = calls q @ [Search (collection self)]"
    by simp
  with s n lt show ?thesis
    by blast
qed

text \<open>
  With \<open>top_k = 2\<close> the sample service gives one context, although the third nearest
  record has a text.
\<close>

theorem search_no_backfill_witness:
  "answers sample_service \<and>
   fst (search \<lparr>collection = ''docs''\<rparr> by_length [1, 0] 2 sample_service) =
     Inr \<lparr>contexts = [PStr ''refunds''], sources = [PStr []]\<rparr> \<and>
   calls (snd (search \<lparr>collection = ''docs''\<rparr> by_length [1, 0] 2 sample_service)) = [Search ''docs''] \<and>
   length (contexts \<lparr>contexts = [PStr ''refunds''], sources = [PStr []]\<rparr>) < 2 \<and>
   hit_text (ranked (similarity sample_service COSINE) [1, 0] sample_points ! 2) = PStr ''thirty days''"
proof -
  have a: "answers sample_service"
    by (simp add: answers_def sample_service_def service_def)
  have c: "collections sample_service (collection \<lparr>collection = ''docs''\<rparr>) =
      Some \<lparr>vec_size = 2, metric = COSINE, points = sample_points\<rparr>"
    by (simp add: sample_service_def service_def docs_collection_def)
  have k: "calls sample_service = []"
    by (simp add: sample_service_def service_def)
  have t: "hit_text (ranked (similarity sample_service COSINE) [1, 0] sample_points ! 2)
      = PStr ''thirty days''"
    by (simp add: sample_ranked hit_text_def hit_payload_def dict_get_def)
  from search_no_backfill [OF a c, of by_length "[1, 0]" 2] obtain found q' where
    s: "search \<lparr>collection = ''docs''\<rparr> by_length [1, 0] 2 sample_service = (Inr found, q')" and
    l: "calls q' = calls sample_service @ [Search (collection \<lparr>collection = ''docs''\<rparr>)]"
    by blast
  have "calls (snd (search \<lparr>collection = ''docs''\<rparr> by_length [1, 0] 2 sample_service))
      = [Search ''docs'']"
    by (simp add: s l k)
  with a t sample_found show ?thesis
    by simp
qed

text \<open>
  Claim C10: a hit whose payload has a non-empty text and no \<^verbatim>\<open>'source'\<close> key is
  kept: its text is among the contexts, and the empty string is among the sources; the
  search does not fail.
\<close>

theorem search_missing_source:
  assumes "client_search (collection self) qv top_k q = (Inr hits, q')"
    and "r \<in> set hits" and "payload r = Some d"
    and "truthy (dict_get d ''text'')" and "''source'' \<notin> dom d"
  shows "\<exists>found. search self slot qv top_k q = (Inr found, q') \<and>
      dict_get d ''text'' \<in> set (contexts found) \<and> PStr [] \<in> set (sources found)"
proof -
  have t: "hit_text r = dict_get d ''text''"
    using assms(3) by (simp add: hit_text_def hit_payload_def)
  have k: "kept r"
    using assms(4) by (simp add: kept_def t)
  have "d ''source'' = None"
    using assms(5) by (simp add: domIff)
  then have s: "hit_source r = PStr []"
    using assms(3) by (simp add: hit_source_def hit_payload_def dict_get_def)
  have "r \<in> set (filter kept hits)"
    using assms(2) k by simp
  then have "hit_text r \<in> set (map hit_text (filter kept hits)) \<and>
      hit_source r \<in> set (map hit_source (filter kept hits))"
    by (simp only: set_map imageI simp_thms)
  then show ?thesis
    by (simp add: search_of_hits [OF assms(1)] set_fold_set_add t s)
qed

text \<open>The sample record \<open>id2\<close> has a text and no source.\<close>

theorem search_missing_source_witness:
  "\<exists>found. search \<lparr>collection = ''docs''\<rparr> by_length [1, 0] 2 sample_service =
       (Inr found, sample_service\<lparr>calls := [Search ''docs'']\<rparr>) \<and>
     dict_get [''text'' \<mapsto> PStr ''refunds''] ''text'' \<in> set (contexts found) \<and>
     PStr [] \<in> set (sources found)"
proof -
  have cs: "client_search (collection \<lparr>collection = ''docs''\<rparr>) [1, 0] 2 sample_service =
     (Inr [\<lparr>hit_id = ''id1'', score = 3, payload = Some [''source'' \<mapsto> PStr ''a.pdf'', ''text'' \<mapsto> PStr []]\<rparr>,
           \<lparr>hit_id = ''id2'', score = 2, payload = Some [''text'' \<mapsto> PStr ''refunds'']\<rparr>],
      sample_service\<lparr>calls := [Search ''docs'']\<rparr>)"
    using sample_search by simp
  show ?thesis
    by (rule search_missing_source [OF cs,
          of "\<lparr>hit_id = ''id2'', score = 2, payload = Some [''text'' \<mapsto> PStr ''refunds'']\<rparr>"
             "[''text'' \<mapsto> PStr ''refunds'']"])
       (simp_all add: dict_get_def)
qed

section \<open>Constructing the store\<close>

lemma collection_exists_answers:
  "answers q \<Longrightarrow> collection_exists name q =
     (Inr (collections q name \<noteq> None),
      q\<lparr>faults := tl (faults q), calls := calls q @ [CollectionExists name]\<rparr>)"
  by (simp add: collection_exists_def request_answers)

text \<open>
  Claim C3, as the spec states it: constructing the store against a collection that
  exists with another dimension fails with a dimension mismatch error. It does not hold:
  against a collection of dimension 1536, the construction with dimension 3072 succeeds
  after the one existence check, and the collection keeps dimension 1536.
\<close>

theorem init_dimension_mismatch_counterexample:
  "fst (QdrantStorage_init ''docs'' 3072 (service (docs_collection 1536 []))) =
     Inr \<lparr>collection = ''docs''\<rparr> \<and>
   map_option vec_size
     (collections (snd (QdrantStorage_init ''docs'' 3072 (service (docs_collection 1536 [])))) ''docs'')
     = Some 1536 \<and>
   calls (snd (QdrantStorage_init ''docs'' 3072 (service (docs_collection 1536 []))))
     = [CollectionExists ''docs'']"
  by (simp add: QdrantStorage_init_def collection_exists_def request_def service_def
      docs_collection_def)

text \<open>
  Claim C3, amended: when the collection exists, the construction succeeds after the
  existence check alone and leaves the service's collections as they are, whatever the
  collection's dimension is; the requested dimension is not compared with anything.
  When the collection is absent, it is created, empty, with the requested dimension and
  the cosine metric.
\<close>

theorem init_ensures_collection:
  "(answers q \<and> collections q coll = Some c \<longrightarrow>
      QdrantStorage_init coll d q =
        (Inr \<lparr>collection = coll\<rparr>,
         q\<lparr>faults := tl (faults q), calls := calls q @ [CollectionExists coll]\<rparr>)) \<and>
   (answers q \<and> answers (q\<lparr>faults := tl (faults q)\<rparr>) \<and> collections q coll = None \<longrightarrow>
      QdrantStorage_init coll d q =
        (Inr \<lparr>collection = coll\<rparr>,
         q\<lparr>faults := tl (tl (faults q)),
           calls := calls q @ [CollectionExists coll, CreateCollection coll],
           collections := (collections q)
             (coll \<mapsto> \<lparr>vec_size = d, metric = COSINE, points = []\<rparr>)\<rparr>))"
proof (intro conjI impI)
  assume "answers q \<and> collections q coll = Some c"
  then show "QdrantStorage_init coll d q =
        (Inr \<lparr>collection = coll\<rparr>,
         q\<lparr>faults := tl (faults q), calls := calls q @ [CollectionExists coll]\<rparr>)"
    by (simp add: QdrantStorage_init_def collection_exists_answers)
next
  assume h: "answers q \<and> answers (q\<lparr>faults := tl (faults q)\<rparr>) \<and> collections q coll = None"
  let ?q1 = "q\<lparr>faults := tl (faults q), calls := calls q @ [CollectionExists coll]\<rparr>"
  from h have a1: "answers ?q1"
    by (simp add: answers_def)
  have "create_collection coll d COSINE ?q1 =
      (Inr (), q\<lparr>faults := tl (tl (faults q)),
           calls := calls q @ [CollectionExists coll, CreateCollection coll],
           collections := (collections q)
             (coll \<mapsto> \<lparr>vec_size = d, metric = COSINE, points = []\<rparr>)\<rparr>)"
    using h by (simp add: create_collection_def request_answers [OF a1])
  with h show "QdrantStorage_init coll d q =
        (Inr \<lparr>collection = coll\<rparr>,
         q\<lparr>faults := tl (tl (faults q)),
           calls := calls q @ [CollectionExists coll, CreateCollection coll],
           collections := (collections q)
             (coll \<mapsto> \<lparr>vec_size = d, metric = COSINE, points = []\<rparr>)\<rparr>)"
    by (simp add: QdrantStorage_init_def collection_exists_answers)
qed

text \<open>An existing collection of another dimension, and no collection at all.\<close>

theorem init_ensures_collection_witness:
  "answers (service (docs_collection 1536 [])) \<and>
   collections (service (docs_collection 1536 [])) ''docs''
     = Some \<lparr>vec_size = 1536, metric = COSINE, points = []\<rparr> \<and>
   QdrantStorage_init ''docs'' 3072 (service (docs_collection 1536 [])) =
     (Inr \<lparr>collection = ''docs''\<rparr>,
      (service (docs_collection 1536 []))\<lparr>calls := [CollectionExists ''docs'']\<rparr>) \<and>
   answers (service Map.empty) \<and> collections (service Map.empty) ''docs'' = None \<and>
   QdrantStorage_init ''docs'' 3072 (service Map.empty) =
     (Inr \<lparr>collection = ''docs''\<rparr>,
      (service (docs_collection 3072 []))
        \<lparr>calls := [CollectionExists ''docs'', CreateCollection ''docs'']\<rparr>)"
  using init_ensures_collection [of "service (docs_collection 1536 [])" "''docs''"
      "\<lparr>vec_size = 1536, metric = COSINE, points = []\<rparr>" 3072]
    init_ensures_collection [of "service Map.empty" "''docs''" _ 3072]
  by (simp add: answers_def service_def docs_collection_def)

section \<open>A request that fails\<close>

text \<open>
  Claim C6, as the spec states it: a connectivity failure in \<^verbatim>\<open>search\<close> or in the
  existence check surfaces as a StoreUnavailableError. It does not hold: the code wraps
  nothing, so when the client raises its ResponseHandlingException, that exception is
  what the caller of \<^verbatim>\<open>search\<close>, or of the constructor, gets.
\<close>

theorem search_fault_counterexample:
  "fst (search \<lparr>collection = ''docs''\<rparr> by_length [1, 0] 2
         (sample_service\<lparr>faults := [Some ''ResponseHandlingException'']\<rparr>))
     = Inl (LibraryError ''ResponseHandlingException'') \<and>
   LibraryError ''ResponseHandlingException'' \<noteq> LibraryError ''StoreUnavailableError'' \<and>
   fst (QdrantStorage_init ''docs'' 3072
         (sample_service\<lparr>faults := [Some ''ResponseHandlingException'']\<rparr>))
     = Inl (LibraryError ''ResponseHandlingException'')"
  by (simp add: search_def client_search_def QdrantStorage_init_def collection_exists_def
      request_def)

text \<open>
  Claim C6, amended: when the request fails, \<^verbatim>\<open>search\<close>, the existence check and
  the constructor each end with the client's own exception, unchanged, after that one
  request; \<^verbatim>\<open>search\<close> does not return a result, in particular not the empty one.
\<close>

theorem fault_propagates:
  assumes "faults q = Some e # fs"
  shows "search self slot qv top_k q =
      (Inl (LibraryError e), q\<lparr>faults := fs, calls := calls q @ [Search (collection self)]\<rparr>) \<and>
    fst (search self slot qv top_k q) \<noteq> Inr \<lparr>contexts = [], sources = []\<rparr> \<and>
    collection_exists coll q =
      (Inl (LibraryError e), q\<lparr>faults := fs, calls := calls q @ [CollectionExists coll]\<rparr>) \<and>
    QdrantStorage_init coll d q =
      (Inl (LibraryError e), q\<lparr>faults := fs, calls := calls q @ [CollectionExists coll]\<rparr>)"
  by (simp add: search_def client_search_def QdrantStorage_init_def collection_exists_def
      request_fault [OF assms])

text \<open>The sample service, unreachable for the next request.\<close>

theorem fault_propagates_witness:
  "faults (sample_service\<lparr>faults := [Some ''ResponseHandlingException'']\<rparr>)
     = [Some ''ResponseHandlingException''] \<and>
   search \<lparr>collection = ''docs''\<rparr> by_length [1, 0] 2
       (sample_service\<lparr>faults := [Some ''ResponseHandlingException'']\<rparr>)
     = (Inl (LibraryError ''ResponseHandlingException''),
        sample_service\<lparr>faults := [], calls := calls sample_service @ [Search ''docs'']\<rparr>)"
  using fault_propagates [of "sample_service\<lparr>faults := [Some ''ResponseHandlingException'']\<rparr>"
      "''ResponseHandlingException''" "[]" "\<lparr>collection = ''docs''\<rparr>" by_length "[1, 0]" 2]
  by simp

section \<open>The ingestion, step by step\<close>

lemma request_collections: "collections (snd (request c q)) = collections q"
  by (cases "faults q") (simp_all add: request_def)

lemma records_init: "records (snd (QdrantStorage_init coll d q)) n = records q n"
proof -
  obtain f q1 where r1: "request (CollectionExists coll) q = (f, q1)"
    by (cases "request (CollectionExists coll) q")
  obtain g q2 where r2: "request (CreateCollection coll) q1 = (g, q2)"
    by (cases "request (CreateCollection coll) q1")
  from r1 have c1: "collections q1 = collections q"
    using request_collections [of "CollectionExists coll" q] by simp
  from r2 have c2: "collections q2 = collections q"
    using request_collections [of "CreateCollection coll" q1] c1 by simp
  show ?thesis
    by (cases f; cases g; cases "collections q coll")
       (auto simp add: QdrantStorage_init_def collection_exists_def create_collection_def
          r1 r2 c1 c2 records_def)
qed

lemma collection_exists_result:
  "collection_exists name q = (r, q1) \<Longrightarrow>
   collections q1 = collections q \<and> (\<forall>b. r = Inr b \<longrightarrow> b = (collections q name \<noteq> None))"
proof -
  assume a: "collection_exists name q = (r, q1)"
  obtain f qa where r1: "request (CollectionExists name) q = (f, qa)"
    by (cases "request (CollectionExists name) q")
  from r1 have "collections qa = collections q"
    using request_collections [of "CollectionExists name" q] by simp
  with a show ?thesis
    by (cases f) (auto simp add: collection_exists_def r1)
qed

lemma create_collection_Inr:
  "create_collection name sz d q = (Inr u, q2) \<Longrightarrow> collections q2 name \<noteq> None"
proof -
  assume a: "create_collection name sz d q = (Inr u, q2)"
  obtain f qa where r1: "request (CreateCollection name) q = (f, qa)"
    by (cases "request (CreateCollection name) q")
  from a show ?thesis
    by (cases f; cases "collections qa name") (auto simp add: create_collection_def r1)
qed

lemma init_Inr:
  assumes "QdrantStorage_init coll d q = (Inr store, q')"
  shows "collection store = coll \<and> collections q' coll \<noteq> None"
proof -
  obtain r qa where e: "collection_exists coll q = (r, qa)"
    by (cases "collection_exists coll q")
  from assms e obtain b where r: "r = Inr b"
    by (cases r) (auto simp add: QdrantStorage_init_def)
  from collection_exists_result [OF e] r
  have c: "collections qa = collections q" and b: "b = (collections q coll \<noteq> None)"
    by simp_all
  show ?thesis
  proof (cases b)
    case True
    with assms e r have "store = \<lparr>collection = coll\<rparr>" and "q' = qa"
      by (simp_all add: QdrantStorage_init_def)
    with True b c show ?thesis
      by simp
  next
    case False
    obtain r2 qb where k: "create_collection coll d COSINE qa = (r2, qb)"
      by (cases "create_collection coll d COSINE qa")
    from assms e r False k have "r2 = Inr ()" and "store = \<lparr>collection = coll\<rparr>" and "q' = qb"
      by (cases r2; simp add: QdrantStorage_init_def)+
    with create_collection_Inr [of coll d COSINE qa "()" qb] k show ?thesis
      by simp
  qed
qed

lemma records_client_upsert:
  "client_upsert name ps q = (res, q') \<Longrightarrow>
   records q' n =
     (if res = Inr () \<and> n = name then fold write_point ps (records q name) else records q n)"
proof -
  assume a: "client_upsert name ps q = (res, q')"
  obtain f qa where r1: "request (Upsert name) q = (f, qa)"
    by (cases "request (Upsert name) q")
  from r1 have c1: "collections qa = collections q"
    using request_collections [of "Upsert name" q] by simp
  from a c1 show ?thesis
    by (cases f; cases "collections q name")
       (auto simp add: client_upsert_def r1 records_def split: if_splits)
qed

lemma load_and_chunk_pdf_embed [simp]:
  "load_and_chunk_pdf (E\<lparr>embed := e\<rparr>) path = load_and_chunk_pdf E path"
  by (simp add: load_and_chunk_pdf_def split: sum.splits)

lemma ingest_load_embed [simp]: "ingest_load (E\<lparr>embed := e\<rparr>) data = ingest_load E data"
  by (simp add: ingest_load_def split: option.splits)

lemma chunk_ids_embed [simp]: "chunk_ids (E\<lparr>embed := e\<rparr>) sid n = chunk_ids E sid n"
  by (simp add: chunk_ids_def)

lemma ingest_load_Inr:
  "ingest_load E data = Inr cas \<Longrightarrow>
   \<exists>path. data ''pdf_path'' = Some path \<and> load_and_chunk_pdf E path = Inr (chunks cas) \<and>
     source_id cas = (case data ''source_id'' of None \<Rightarrow> path | Some s \<Rightarrow> s)"
  by (auto simp add: ingest_load_def Let_def split: option.splits sum.splits)

lemma length_chunk_ids [simp]: "length (chunk_ids E sid n) = n"
  by (simp add: chunk_ids_def)

lemma length_chunk_payloads [simp]: "length (chunk_payloads sid cs) = length cs"
  by (simp add: chunk_payloads_def)

lemma ingest_upsert_Inr:
  assumes "ingest_upsert E cas q = (Inr r, q')"
  shows "ingested r = int (length (chunks cas)) \<and>
    (\<exists>vecs. embed E (chunks cas) = Inr vecs \<and> length (chunks cas) \<le> length vecs \<and>
       records q' ''docs'' = fold write_point (chunk_points E cas vecs) (records q ''docs''))"
proof -
  from assms obtain vecs where e: "embed E (chunks cas) = Inr vecs"
    by (cases "embed E (chunks cas)") (auto simp add: ingest_upsert_def embed_texts_def)
  obtain r1 q1 where i: "QdrantStorage_init ''docs'' 3072 q = (r1, q1)"
    by (cases "QdrantStorage_init ''docs'' 3072 q")
  from assms e i obtain store where s: "r1 = Inr store"
    by (cases r1) (auto simp add: ingest_upsert_def embed_texts_def Let_def)
  from init_Inr i s have cs: "collection store = ''docs''"
    by blast
  let ?ids = "chunk_ids E (source_id cas) (length (chunks cas))"
  let ?pl = "chunk_payloads (source_id cas) (chunks cas)"
  obtain r2 q2 where u: "upsert store ?ids vecs ?pl q1 = (r2, q2)"
    by (cases "upsert store ?ids vecs ?pl q1")
  from assms e i s u have r2: "r2 = Inr ()" and q2: "q2 = q'"
    and n: "ingested r = int (length (chunks cas))"
    by (cases r2; auto simp add: ingest_upsert_def embed_texts_def Let_def)+
  have len: "length (chunks cas) \<le> length vecs"
  proof (rule ccontr)
    assume "\<not> length (chunks cas) \<le> length vecs"
    then have "length vecs < length ?ids"
      by simp
    then have "upsert store ?ids vecs ?pl q1 = (Inl IndexError, q1)"
      by (intro upsert_short disjI1)
    with u r2 show False
      by simp
  qed
  then have "upsert store ?ids vecs ?pl q1 = client_upsert ''docs'' (chunk_points E cas vecs) q1"
    by (simp add: upsert_long chunk_points_def cs)
  with u r2 q2 have "client_upsert ''docs'' (chunk_points E cas vecs) q1 = (Inr (), q')"
    by simp
  from records_client_upsert [OF this, of "''docs''"]
  have "records q' ''docs'' = fold write_point (chunk_points E cas vecs) (records q1 ''docs'')"
    by simp
  moreover have "records q1 ''docs'' = records q ''docs''"
    using records_init [of "''docs''" 3072 q "''docs''"] i by simp
  ultimately show ?thesis
    using n e len by simp
qed


section \<open>The ingested count\<close>

lemma rag_ingest_pdf_Inr:
  assumes "rag_ingest_pdf E data q = (Inr r, q')"
  shows "\<exists>cas. ingest_load E data = Inr cas \<and> ingest_upsert E cas q = (Inr r, q')"
  using assms by (cases "ingest_load E data") (simp_all add: rag_ingest_pdf_def)

text \<open>
  Claim C8: when the ingestion succeeds, the count it returns is the number of chunks
  that the loader made of the document.
\<close>

theorem ingest_count:
  assumes "fst (rag_ingest_pdf E data q) = Inr r"
  shows "\<exists>path cs. data ''pdf_path'' = Some path \<and> load_and_chunk_pdf E path = Inr cs \<and>
      ingested r = int (length cs)"
proof -
  from assms have "rag_ingest_pdf E data q = (Inr r, snd (rag_ingest_pdf E data q))"
    by (simp add: prod_eq_iff)
  from rag_ingest_pdf_Inr [OF this] obtain cas where
    l: "ingest_load E data = Inr cas" and
    u: "ingest_upsert E cas q = (Inr r, snd (rag_ingest_pdf E data q))"
    by blast
  from ingest_load_Inr [OF l] obtain path where
    "data ''pdf_path'' = Some path" and "load_and_chunk_pdf E path = Inr (chunks cas)"
    by blast
  moreover from ingest_upsert_Inr [OF u] have "ingested r = int (length (chunks cas))"
    by simp
  ultimately show ?thesis
    by blast
qed

lemma sample_load: "load_and_chunk_pdf sample_env ''doc.pdf'' = Inr [''one'', ''two'', ''three'']"
  by (simp add: load_and_chunk_pdf_def sample_env_def List.map_filter_def has_text_def)

lemma sample_load_scan: "load_and_chunk_pdf sample_env ''scan.pdf'' = Inr []"
  by (simp add: load_and_chunk_pdf_def sample_env_def List.map_filter_def has_text_def)


lemma sample_chunk_ids:
  "chunk_ids sample_env ''doc.pdf'' (Suc (Suc (Suc 0))) =
     [''bb2d8670-e8dc-5abe-b552-5090bd97b9a6'', ''76fa3489-96c1-5db6-bf03-5ed9dafe90b7'',
      ''63e469a4-8dc8-5fa2-82a8-874d44b52a66'']"
  by (simp add: chunk_ids_def sample_env_def str_nat.simps)

lemma sample_ids_uuid:
  "is_uuid ''bb2d8670-e8dc-5abe-b552-5090bd97b9a6''"
  "is_uuid ''76fa3489-96c1-5db6-bf03-5ed9dafe90b7''"
  "is_uuid ''63e469a4-8dc8-5fa2-82a8-874d44b52a66''"
  by (simp_all add: is_uuid_def is_hex_def)

lemma sample_ingest:
  "fst (rag_ingest_pdf sample_env [''pdf_path'' \<mapsto> ''doc.pdf''] (service Map.empty))
     = Inr \<lparr>ingested = 3\<rparr>"
proof -
  have e: "embed sample_env [''one'', ''two'', ''three'']
      = Inr [replicate 3072 1, replicate 3072 1, replicate 3072 1]"
    by (simp add: sample_env_def)
  show ?thesis
    by (simp add: rag_ingest_pdf_def ingest_load_def sample_load ingest_upsert_def embed_texts_def
      e chunk_payloads_def Let_def QdrantStorage_init_def collection_exists_def
      create_collection_def request_def service_def upsert_def py_index_def client_upsert_def
      sample_chunk_ids accepts_def sample_ids_uuid)
qed

text \<open>Three pages with text, one chunk each: the count is 3.\<close>

theorem ingest_count_witness:
  "fst (rag_ingest_pdf sample_env [''pdf_path'' \<mapsto> ''doc.pdf''] (service Map.empty))
     = Inr \<lparr>ingested = 3\<rparr> \<and>
   load_and_chunk_pdf sample_env ''doc.pdf'' = Inr [''one'', ''two'', ''three''] \<and>
   ingested \<lparr>ingested = 3\<rparr> = int (length [''one'', ''two'', ''three''])"
  using ingest_count [OF sample_ingest] sample_ingest sample_load
  by simp

section \<open>A document without text\<close>

lemma sample_scan_ingest:
  "load_and_chunk_pdf sample_env ''scan.pdf'' = Inr [] \<and>
   fst (rag_ingest_pdf sample_env [''pdf_path'' \<mapsto> ''scan.pdf''] (service Map.empty))
     = Inr \<lparr>ingested = 0\<rparr> \<and>
   calls (snd (rag_ingest_pdf sample_env [''pdf_path'' \<mapsto> ''scan.pdf''] (service Map.empty)))
     = [CollectionExists ''docs'', CreateCollection ''docs'', Upsert ''docs'']"
proof -
  have e: "embed sample_env [] = Inr []"
    by (simp add: sample_env_def)
  show ?thesis
    by (simp add: rag_ingest_pdf_def ingest_load_def sample_load_scan ingest_upsert_def
        embed_texts_def e chunk_ids_def chunk_payloads_def Let_def QdrantStorage_init_def
        collection_exists_def create_collection_def request_def service_def upsert_def
        client_upsert_def)
qed

text \<open>
  Claim C4, as the spec states it: a document with no extractable text makes the
  chunking fail with an empty-input error, and the ingestion stops. It does not hold:
  for \<^verbatim>\<open>scan.pdf\<close> the loader returns the empty list of chunks, and the ingestion
  goes on to the embedder and to the store, sends an upsert request with no points, and
  returns the count 0.
\<close>

theorem no_text_no_error_counterexample:
  "load_and_chunk_pdf sample_env ''scan.pdf'' = Inr [] \<and>
   fst (rag_ingest_pdf sample_env [''pdf_path'' \<mapsto> ''scan.pdf''] (service Map.empty))
     = Inr \<lparr>ingested = 0\<rparr> \<and>
   calls (snd (rag_ingest_pdf sample_env [''pdf_path'' \<mapsto> ''scan.pdf''] (service Map.empty)))
     = [CollectionExists ''docs'', CreateCollection ''docs'', Upsert ''docs'']"
  by (rule sample_scan_ingest)

lemma fold_extend: "fold (\<lambda>t chunks. chunks @ f t) texts acc = acc @ concat (map f texts)"
  by (induction texts arbitrary: acc) simp_all

lemma load_no_chunks:
  assumes "reader E path = Inr docs"
    and "\<forall>d\<in>set docs. \<forall>t. has_text d = Some t \<longrightarrow> split_text E t = []"
  shows "load_and_chunk_pdf E path = Inr []"
proof -
  from assms(2) have "concat (map (split_text E) (List.map_filter has_text docs)) = []"
  proof (induction docs)
    case Nil
    show ?case by (simp add: List.map_filter_simps)
  next
    case (Cons d docs)
    then show ?case
      by (cases "has_text d") (simp_all add: List.map_filter_simps)
  qed
  with assms(1) show ?thesis
    by (simp add: load_and_chunk_pdf_def fold_extend)
qed

lemma ingest_upsert_empty:
  assumes "chunks cas = []"
  shows "ingest_upsert E cas q =
    (case embed E [] of
       Inl e \<Rightarrow> (Inl e, q)
     | Inr vecs \<Rightarrow>
         (case QdrantStorage_init ''docs'' 3072 q of
            (Inl e, q1) \<Rightarrow> (Inl e, q1)
          | (Inr store, q1) \<Rightarrow>
              (case client_upsert ''docs'' [] q1 of
                 (Inl e, q2) \<Rightarrow> (Inl e, q2)
               | (Inr u, q2) \<Rightarrow> (Inr \<lparr>ingested = 0\<rparr>, q2))))"
proof (cases "embed E []")
  case (Inl e)
  with assms show ?thesis
    by (simp add: ingest_upsert_def embed_texts_def)
next
  case (Inr vecs)
  obtain r1 q1 where i: "QdrantStorage_init ''docs'' 3072 q = (r1, q1)"
    by (cases "QdrantStorage_init ''docs'' 3072 q")
  show ?thesis
  proof (cases r1)
    case (Inl e)
    with assms Inr i show ?thesis
      by (simp add: ingest_upsert_def embed_texts_def chunk_ids_def chunk_payloads_def)
  next
    case store: (Inr store)
    from init_Inr i store have "collection store = ''docs''"
      by blast
    with assms Inr i store show ?thesis
      by (simp add: ingest_upsert_def embed_texts_def chunk_ids_def chunk_payloads_def
          upsert_def split: prod.splits sum.splits)
  qed
qed

lemma records_ingest_upsert_empty:
  assumes "chunks cas = []"
  shows "records (snd (ingest_upsert E cas q)) n = records q n"
proof (cases "embed E []")
  case (Inl e)
  with assms show ?thesis
    by (simp add: ingest_upsert_empty)
next
  case (Inr vecs)
  obtain r1 q1 where i: "QdrantStorage_init ''docs'' 3072 q = (r1, q1)"
    by (cases "QdrantStorage_init ''docs'' 3072 q")
  have q1: "records q1 n = records q n"
    using records_init [of "''docs''" 3072 q n] i by simp
  obtain r2 q2 where u: "client_upsert ''docs'' [] q1 = (r2, q2)"
    by (cases "client_upsert ''docs'' [] q1")
  from records_client_upsert [OF u, of n] have "records q2 n = records q1 n"
    by simp
  with assms Inr i q1 u show ?thesis
    by (cases r1; cases r2) (simp_all add: ingest_upsert_empty)
qed

lemma ingest_upsert_empty_succeeds:
  assumes "chunks cas = []" and "embed E [] = Inr vecs" and "faults q = []"
  shows "fst (ingest_upsert E cas q) = Inr \<lparr>ingested = 0\<rparr> \<and>
    calls (snd (ingest_upsert E cas q)) = calls q @
      (if collections q ''docs'' = None
       then [CollectionExists ''docs'', CreateCollection ''docs'', Upsert ''docs'']
       else [CollectionExists ''docs'', Upsert ''docs''])"
  using assms(2,3)
  by (cases "collections q ''docs''")
     (simp_all add: ingest_upsert_empty [OF assms(1)] QdrantStorage_init_def
        collection_exists_def create_collection_def request_def client_upsert_def)

text \<open>
  Claim C4, amended: when no page of the document gives a chunk (the page has no text,
  or the empty text, or a text of which the splitter makes nothing), the loader returns
  the empty list of chunks and no error, and the ingestion is not stopped. It calls the
  embedder with the empty list; if the embedder fails, that failure is the result;
  otherwise the store is constructed and one upsert request with no points is sent, and
  the result is the count 0 when that request succeeds and its failure otherwise. No
  record is written in any case. With an embedder that answers and a service that
  answers, the ingestion succeeds with the count 0 after the requests of the
  construction and the upsert request.
\<close>

theorem no_text_ingest:
  assumes "data ''pdf_path'' = Some path" and "reader E path = Inr docs"
    and "\<forall>d\<in>set docs. \<forall>t. has_text d = Some t \<longrightarrow> split_text E t = []"
  shows "load_and_chunk_pdf E path = Inr [] \<and>
    rag_ingest_pdf E data q =
      (case embed E [] of
         Inl e \<Rightarrow> (Inl e, q)
       | Inr vecs \<Rightarrow>
           (case QdrantStorage_init ''docs'' 3072 q of
              (Inl e, q1) \<Rightarrow> (Inl e, q1)
            | (Inr store, q1) \<Rightarrow>
                (case client_upsert ''docs'' [] q1 of
                   (Inl e, q2) \<Rightarrow> (Inl e, q2)
                 | (Inr u, q2) \<Rightarrow> (Inr \<lparr>ingested = 0\<rparr>, q2)))) \<and>
    (\<forall>n. records (snd (rag_ingest_pdf E data q)) n = records q n) \<and>
    (\<forall>r. fst (rag_ingest_pdf E data q) = Inr r \<longrightarrow> ingested r = 0) \<and>
    (\<forall>vecs. embed E [] = Inr vecs \<and> faults q = [] \<longrightarrow>
       fst (rag_ingest_pdf E data q) = Inr \<lparr>ingested = 0\<rparr> \<and>
       calls (snd (rag_ingest_pdf E data q)) = calls q @
         (if collections q ''docs'' = None
          then [CollectionExists ''docs'', CreateCollection ''docs'', Upsert ''docs'']
          else [CollectionExists ''docs'', Upsert ''docs'']))"
proof -
  have l: "load_and_chunk_pdf E path = Inr []"
    by (rule load_no_chunks [OF assms(2,3)])
  let ?sid = "case data ''source_id'' of None \<Rightarrow> path | Some s \<Rightarrow> s"
  let ?cas = "\<lparr>chunks = [], source_id = ?sid\<rparr>"
  have c: "chunks ?cas = []"
    by simp
  have i: "rag_ingest_pdf E data q = ingest_upsert E ?cas q"
    by (simp add: rag_ingest_pdf_def ingest_load_def assms(1) l)
  have eq: "rag_ingest_pdf E data q =
      (case embed E [] of
         Inl e \<Rightarrow> (Inl e, q)
       | Inr vecs \<Rightarrow>
           (case QdrantStorage_init ''docs'' 3072 q of
              (Inl e, q1) \<Rightarrow> (Inl e, q1)
            | (Inr store, q1) \<Rightarrow>
                (case client_upsert ''docs'' [] q1 of
                   (Inl e, q2) \<Rightarrow> (Inl e, q2)
                 | (Inr u, q2) \<Rightarrow> (Inr \<lparr>ingested = 0\<rparr>, q2))))"
    by (simp only: i ingest_upsert_empty [OF c])
  have recs: "\<forall>n. records (snd (rag_ingest_pdf E data q)) n = records q n"
    by (simp add: i records_ingest_upsert_empty)
  have zero: "\<forall>r. fst (rag_ingest_pdf E data q) = Inr r \<longrightarrow> ingested r = 0"
  proof (intro allI impI)
    fix r
    assume "fst (rag_ingest_pdf E data q) = Inr r"
    then have "ingest_upsert E ?cas q = (Inr r, snd (rag_ingest_pdf E data q))"
      by (simp add: i [symmetric] prod_eq_iff)
    from ingest_upsert_Inr [OF this] show "ingested r = 0"
      by simp
  qed
  have ok: "\<forall>vecs. embed E [] = Inr vecs \<and> faults q = [] \<longrightarrow>
       fst (rag_ingest_pdf E data q) = Inr \<lparr>ingested = 0\<rparr> \<and>
       calls (snd (rag_ingest_pdf E data q)) = calls q @
         (if collections q ''docs'' = None
          then [CollectionExists ''docs'', CreateCollection ''docs'', Upsert ''docs'']
          else [CollectionExists ''docs'', Upsert ''docs''])"
    using ingest_upsert_empty_succeeds [OF c, of E _ q] by (simp only: i) blast
  from l eq recs zero ok show ?thesis
    by (intro conjI)
qed

text \<open>
  \<^verbatim>\<open>scan.pdf\<close>, whose third page is blank, against a store with records and
  against an empty service.
\<close>

theorem no_text_ingest_witness:
  "load_and_chunk_pdf sample_env ''scan.pdf'' = Inr [] \<and>
   records (snd (rag_ingest_pdf sample_env [''pdf_path'' \<mapsto> ''scan.pdf'']
      (service (docs_collection 2 sample_points)))) ''docs'' = sample_points \<and>
   fst (rag_ingest_pdf sample_env [''pdf_path'' \<mapsto> ''scan.pdf'']
      (service (docs_collection 2 sample_points))) = Inr \<lparr>ingested = 0\<rparr> \<and>
   calls (snd (rag_ingest_pdf sample_env [''pdf_path'' \<mapsto> ''scan.pdf'']
      (service (docs_collection 2 sample_points)))) = [CollectionExists ''docs'', Upsert ''docs'']"
proof -
  let ?docs = "[\<lparr>doc_text = None\<rparr>, \<lparr>doc_text = Some []\<rparr>, \<lparr>doc_text = Some ''  ''\<rparr>]"
  let ?S = "service (docs_collection 2 sample_points)"
  have r: "reader sample_env ''scan.pdf'' = Inr ?docs"
    by (simp add: sample_env_def)
  have h: "\<forall>d\<in>set ?docs. \<forall>t. has_text d = Some t \<longrightarrow> split_text sample_env t = []"
    by (simp add: has_text_def sample_env_def)
  have d: "[''pdf_path'' \<mapsto> ''scan.pdf''] ''pdf_path'' = Some ''scan.pdf''"
    by simp
  have s: "records ?S ''docs'' = sample_points" "calls ?S = []"
    "collections ?S ''docs'' \<noteq> None"
    by (simp_all add: records_def service_def docs_collection_def)
  have e: "embed sample_env [] = Inr [] \<and> faults ?S = []"
    by (simp add: sample_env_def service_def)
  from no_text_ingest [of "[''pdf_path'' \<mapsto> ''scan.pdf'']" "''scan.pdf''" sample_env ?docs ?S,
      OF d r h]
  have "load_and_chunk_pdf sample_env ''scan.pdf'' = Inr []"
    and "\<forall>n. records (snd (rag_ingest_pdf sample_env [''pdf_path'' \<mapsto> ''scan.pdf''] ?S)) n
      = records ?S n"
    and "\<forall>vecs. embed sample_env [] = Inr vecs \<and> faults ?S = [] \<longrightarrow>
       fst (rag_ingest_pdf sample_env [''pdf_path'' \<mapsto> ''scan.pdf''] ?S) = Inr \<lparr>ingested = 0\<rparr> \<and>
       calls (snd (rag_ingest_pdf sample_env [''pdf_path'' \<mapsto> ''scan.pdf''] ?S)) = calls ?S @
         (if collections ?S ''docs'' = None
          then [CollectionExists ''docs'', CreateCollection ''docs'', Upsert ''docs'']
          else [CollectionExists ''docs'', Upsert ''docs''])"
    by blast+
  with e s show ?thesis
    by simp
qed

section \<open>Ingesting the same document again\<close>

lemma update_commute:
  "k \<in> fst ` set al \<Longrightarrow> k \<noteq> k' \<Longrightarrow>
   AList.update k' v' (AList.update k v al) = AList.update k v (AList.update k' v' al)"
  by (induction al) auto

lemma fold_update_keys:
  "fst ` set (fold (\<lambda>(k, v). AList.update k v) kvs al) = fst ` set al \<union> fst ` set kvs"
proof (induction kvs arbitrary: al)
  case Nil
  show ?case by simp
next
  case (Cons kv kvs)
  obtain k v where kv: "kv = (k, v)"
    by (cases kv)
  have "fst ` set (fold (\<lambda>(k, v). AList.update k v) kvs (AList.update k v al))
      = fst ` set (AList.update k v al) \<union> fst ` set kvs"
    by (rule Cons.IH)
  also have "\<dots> = fst ` set al \<union> fst ` set (kv # kvs)"
    unfolding AList.dom_update by (simp add: kv)
  finally show ?case
    by (simp add: kv)
qed

lemma fold_update_overridden:
  "k \<in> fst ` set al \<Longrightarrow> k \<in> fst ` set kvs \<Longrightarrow>
   fold (\<lambda>(k, v). AList.update k v) kvs (AList.update k v al)
     = fold (\<lambda>(k, v). AList.update k v) kvs al"
proof (induction kvs arbitrary: al)
  case Nil
  then show ?case by simp
next
  case (Cons kv kvs)
  obtain k' v' where kv: "kv = (k', v')"
    by (cases kv)
  show ?case
  proof (cases "k' = k")
    case True
    then show ?thesis
      by (simp add: kv)
  next
    case False
    with Cons.prems have in_rest: "k \<in> fst ` set kvs"
      by (auto simp add: kv)
    have in_al: "k \<in> fst ` set (AList.update k' v' al)"
      using Cons.prems(1) by (simp add: AList.dom_update)
    have "AList.update k' v' (AList.update k v al) = AList.update k v (AList.update k' v' al)"
      using Cons.prems(1) False by (simp add: update_commute)
    then show ?thesis
      using Cons.IH [OF in_al in_rest] by (simp add: kv)
  qed
qed

lemma fold_update_untouched:
  "k \<in> fst ` set al \<Longrightarrow> k \<notin> fst ` set kvs \<Longrightarrow>
   fold (\<lambda>(k, v). AList.update k v) kvs (AList.update k v al)
     = AList.update k v (fold (\<lambda>(k, v). AList.update k v) kvs al)"
proof (induction kvs arbitrary: al)
  case Nil
  then show ?case by simp
next
  case (Cons kv kvs)
  obtain k' v' where kv: "kv = (k', v')"
    by (cases kv)
  from Cons.prems have ne: "k \<noteq> k'" and out: "k \<notin> fst ` set kvs"
    by (auto simp add: kv)
  have in_al: "k \<in> fst ` set (AList.update k' v' al)"
    using Cons.prems(1) by (simp add: AList.dom_update)
  have "AList.update k' v' (AList.update k v al) = AList.update k v (AList.update k' v' al)"
    using Cons.prems(1) ne by (simp add: update_commute)
  then show ?case
    using Cons.IH [OF in_al out] by (simp add: kv)
qed

lemma fold_update_idem:
  "fold (\<lambda>(k, v). AList.update k v) kvs (fold (\<lambda>(k, v). AList.update k v) kvs al)
     = fold (\<lambda>(k, v). AList.update k v) kvs al"
proof (induction kvs arbitrary: al)
  case Nil
  show ?case by simp
next
  case (Cons kv kvs)
  obtain k v where kv: "kv = (k, v)"
    by (cases kv)
  let ?F = "fold (\<lambda>(k, v). AList.update k v) kvs"
  let ?B = "AList.update k v al"
  have in_B: "k \<in> fst ` set ?B"
    by (simp add: AList.dom_update)
  then have in_FB: "k \<in> fst ` set (?F ?B)"
    by (simp add: fold_update_keys)
  have "?F (AList.update k v (?F ?B)) = ?F ?B"
  proof (cases "k \<in> fst ` set kvs")
    case True
    have "?F (AList.update k v (?F ?B)) = ?F (?F ?B)"
      by (rule fold_update_overridden [OF in_FB True])
    then show ?thesis
      by (simp only: Cons.IH)
  next
    case False
    have "AList.update k v (?F ?B) = ?F (AList.update k v ?B)"
      by (rule fold_update_untouched [OF in_B False, symmetric])
    then have "AList.update k v (?F ?B) = ?F ?B"
      by simp
    then show ?thesis
      by (simp only: Cons.IH)
  qed
  then show ?case
    by (simp add: kv)
qed

lemma id_payload_write_point:
  "id_payload (write_point p al) = AList.update (point_id p) (Some (point_payload p)) (id_payload al)"
  by (induction al) (auto simp add: id_payload_def write_point_def)

lemma id_payload_fold_write_point:
  "id_payload (fold write_point ps al) =
     fold (\<lambda>(k, v). AList.update k v) (map (\<lambda>p. (point_id p, Some (point_payload p))) ps)
       (id_payload al)"
  by (induction ps arbitrary: al) (simp_all add: id_payload_write_point)

lemma chunk_points_id_payload:
  "map (\<lambda>p. (point_id p, Some (point_payload p))) (chunk_points E cas vecs) =
     map (\<lambda>i. (chunk_ids E (source_id cas) (length (chunks cas)) ! i,
               Some (chunk_payloads (source_id cas) (chunks cas) ! i)))
       [0..<length (chunks cas)]"
  by (simp add: chunk_points_def)

lemma keys_id_payload: "map fst (id_payload al) = map fst al"
  by (simp add: id_payload_def split_def)

lemma length_id_payload: "length (id_payload al) = length al"
  by (simp add: id_payload_def)

lemma source_count_id_payload:
  "source_count q name s =
     length (filter (\<lambda>(k, p). case p of None \<Rightarrow> False | Some d \<Rightarrow> d ''source'' = Some (PStr s))
       (id_payload (records q name)))"
  by (simp add: source_count_def id_payload_def filter_map comp_def split_def)


lemma sample_first:
  "rag_ingest_pdf sample_env [''pdf_path'' \<mapsto> ''doc.pdf''] (service Map.empty) =
     (Inr \<lparr>ingested = 3\<rparr>,
      (service (docs_collection 3072 (sample_records (replicate 3072 1))))
        \<lparr>calls := [CollectionExists ''docs'', CreateCollection ''docs'', Upsert ''docs'']\<rparr>)"
proof -
  have e: "embed sample_env [''one'', ''two'', ''three'']
      = Inr [replicate 3072 1, replicate 3072 1, replicate 3072 1]"
    by (simp add: sample_env_def)
  show ?thesis
    by (simp add: rag_ingest_pdf_def ingest_load_def sample_load ingest_upsert_def embed_texts_def
      e chunk_payloads_def Let_def QdrantStorage_init_def collection_exists_def
      create_collection_def request_def service_def upsert_def py_index_def client_upsert_def
      sample_chunk_ids write_point_def accepts_def sample_ids_uuid
      docs_collection_def sample_records_def)
qed

lemma sample_second:
  "rag_ingest_pdf (sample_env\<lparr>embed := other_embed\<rparr>) [''pdf_path'' \<mapsto> ''doc.pdf'']
     ((service (docs_collection 3072 (sample_records (replicate 3072 1))))
        \<lparr>calls := [CollectionExists ''docs'', CreateCollection ''docs'', Upsert ''docs'']\<rparr>) =
     (Inr \<lparr>ingested = 3\<rparr>,
      (service (docs_collection 3072 (sample_records (replicate 3072 2))))
        \<lparr>calls := [CollectionExists ''docs'', CreateCollection ''docs'', Upsert ''docs'',
                   CollectionExists ''docs'', Upsert ''docs'']\<rparr>)"
proof -
  show ?thesis
    by (simp add: rag_ingest_pdf_def ingest_load_def sample_load ingest_upsert_def embed_texts_def
      other_embed_def chunk_payloads_def Let_def QdrantStorage_init_def collection_exists_def
      create_collection_def request_def service_def upsert_def py_index_def client_upsert_def
      sample_chunk_ids write_point_def accepts_def sample_ids_uuid docs_collection_def
      sample_records_def)
qed

text \<open>
  Claim C1: the id of the record of chunk \<open>i\<close> of source \<open>s\<close> is the uuid5 of
  \<open>s\<close>, a colon, a space and \<open>i\<close> in decimal, and the records written carry these
  ids. When the same event is ingested a second time, whatever vectors the embedder
  answers with then, the collection holds the same ids in the same order with the same
  payloads as after the first time: no record is added, the number of records is the
  same, for every source, and the count returned is the same.
\<close>

theorem reingest_overwrites:
  assumes "rag_ingest_pdf E data q = (Inr r1, q1)"
    and "rag_ingest_pdf (E\<lparr>embed := e2\<rparr>) data q1 = (Inr r2, q2)"
  shows "\<exists>cas. ingest_load E data = Inr cas \<and>
      (\<forall>i<length (chunks cas).
         uuid5 E (source_id cas @ '': '' @ str_nat i) \<in> fst ` set (records q1 ''docs'')) \<and>
      id_payload (records q2 ''docs'') = id_payload (records q1 ''docs'') \<and>
      map fst (records q2 ''docs'') = map fst (records q1 ''docs'') \<and>
      length (records q2 ''docs'') = length (records q1 ''docs'') \<and>
      (\<forall>s. source_count q2 ''docs'' s = source_count q1 ''docs'' s) \<and>
      r2 = r1"
proof -
  from rag_ingest_pdf_Inr [OF assms(1)] obtain cas where
    l: "ingest_load E data = Inr cas" and u1: "ingest_upsert E cas q = (Inr r1, q1)"
    by blast
  from rag_ingest_pdf_Inr [OF assms(2)] l
  have u2: "ingest_upsert (E\<lparr>embed := e2\<rparr>) cas q1 = (Inr r2, q2)"
    by simp
  let ?n = "length (chunks cas)"
  let ?kvs = "map (\<lambda>i. (chunk_ids E (source_id cas) ?n ! i,
               Some (chunk_payloads (source_id cas) (chunks cas) ! i))) [0..<?n]"
  let ?F = "fold (\<lambda>(k, v). AList.update k v) ?kvs"
  from ingest_upsert_Inr [OF u1] obtain vecs1 where
    n1: "ingested r1 = int ?n" and
    w1: "records q1 ''docs'' = fold write_point (chunk_points E cas vecs1) (records q ''docs'')"
    by blast
  from ingest_upsert_Inr [OF u2] obtain vecs2 where
    n2: "ingested r2 = int ?n" and
    w2: "records q2 ''docs''
      = fold write_point (chunk_points (E\<lparr>embed := e2\<rparr>) cas vecs2) (records q1 ''docs'')"
    by blast
  have p1: "id_payload (records q1 ''docs'') = ?F (id_payload (records q ''docs''))"
    by (simp only: w1 id_payload_fold_write_point chunk_points_id_payload)
  have "id_payload (records q2 ''docs'') = ?F (id_payload (records q1 ''docs''))"
    by (simp only: w2 id_payload_fold_write_point chunk_points_id_payload chunk_ids_embed)
  then have same: "id_payload (records q2 ''docs'') = id_payload (records q1 ''docs'')"
    by (simp only: p1 fold_update_idem)
  have keys: "map fst (records q2 ''docs'') = map fst (records q1 ''docs'')"
    using same keys_id_payload by metis
  have len: "length (records q2 ''docs'') = length (records q1 ''docs'')"
    using same length_id_payload by metis
  have cnt: "\<forall>s. source_count q2 ''docs'' s = source_count q1 ''docs'' s"
    by (simp only: source_count_id_payload same simp_thms)
  have ids: "\<forall>i<?n. uuid5 E (source_id cas @ '': '' @ str_nat i) \<in> fst ` set (records q1 ''docs'')"
  proof (intro allI impI)
    fix i
    assume i: "i < ?n"
    then have "(chunk_ids E (source_id cas) ?n ! i,
        Some (chunk_payloads (source_id cas) (chunks cas) ! i)) \<in> set ?kvs"
      by simp
    then have "chunk_ids E (source_id cas) ?n ! i \<in> fst ` set ?kvs"
      by (rule image_eqI [rotated]) simp
    then have "chunk_ids E (source_id cas) ?n ! i \<in> fst ` set (id_payload (records q1 ''docs''))"
      by (simp only: p1 fold_update_keys UnI2)
    moreover have "fst ` set (id_payload (records q1 ''docs'')) = fst ` set (records q1 ''docs'')"
      using keys_id_payload [of "records q1 ''docs''"] by (metis set_map)
    moreover have "chunk_ids E (source_id cas) ?n ! i = uuid5 E (source_id cas @ '': '' @ str_nat i)"
      using i by (simp add: chunk_ids_def)
    ultimately show "uuid5 E (source_id cas @ '': '' @ str_nat i) \<in> fst ` set (records q1 ''docs'')"
      by simp
  qed
  have "r2 = r1"
    using n1 n2 by simp
  with l ids same keys len cnt show ?thesis
    by blast
qed

text \<open>
  \<^verbatim>\<open>doc.pdf\<close> ingested into an empty service, then again with another embedder:
  three records both times, with new vectors.
\<close>

theorem reingest_overwrites_witness:
  "rag_ingest_pdf sample_env [''pdf_path'' \<mapsto> ''doc.pdf''] (service Map.empty) =
     (Inr \<lparr>ingested = 3\<rparr>,
      (service (docs_collection 3072 (sample_records (replicate 3072 1))))
        \<lparr>calls := [CollectionExists ''docs'', CreateCollection ''docs'', Upsert ''docs'']\<rparr>) \<and>
   rag_ingest_pdf (sample_env\<lparr>embed := other_embed\<rparr>) [''pdf_path'' \<mapsto> ''doc.pdf'']
     ((service (docs_collection 3072 (sample_records (replicate 3072 1))))
        \<lparr>calls := [CollectionExists ''docs'', CreateCollection ''docs'', Upsert ''docs'']\<rparr>) =
     (Inr \<lparr>ingested = 3\<rparr>,
      (service (docs_collection 3072 (sample_records (replicate 3072 2))))
        \<lparr>calls := [CollectionExists ''docs'', CreateCollection ''docs'', Upsert ''docs'',
                   CollectionExists ''docs'', Upsert ''docs'']\<rparr>) \<and>
   map fst (sample_records (replicate 3072 2)) = map fst (sample_records (replicate 3072 1)) \<and>
   length (sample_records (replicate 3072 2)) = 3 \<and>
   source_count ((service (docs_collection 3072 (sample_records (replicate 3072 2))))
        \<lparr>calls := [CollectionExists ''docs'', CreateCollection ''docs'', Upsert ''docs'',
                   CollectionExists ''docs'', Upsert ''docs'']\<rparr>) ''docs'' ''doc.pdf'' = 3"
proof -
  have r: "records ((service (docs_collection 3072 (sample_records v)))\<lparr>calls := cs\<rparr>) ''docs''
      = sample_records v" for v cs
    by (simp add: records_def service_def docs_collection_def)
  from reingest_overwrites [OF sample_first sample_second]
  have "map fst (sample_records (replicate 3072 2)) = map fst (sample_records (replicate 3072 1))"
    by (auto simp only: r)
  moreover have "length (sample_records (replicate 3072 2)) = 3"
    by (simp add: sample_records_def)
  moreover have "source_count ((service (docs_collection 3072 (sample_records (replicate 3072 2))))
        \<lparr>calls := [CollectionExists ''docs'', CreateCollection ''docs'', Upsert ''docs'',
                   CollectionExists ''docs'', Upsert ''docs'']\<rparr>) ''docs'' ''doc.pdf'' = 3"
    by (simp add: source_count_def r) (simp add: sample_records_def)
  ultimately show ?thesis
    using sample_first sample_second by simp
qed

end
